theory Spec2Isabelle
  imports Main "HOL-Library.Word" "HOL-Library.Sublist"
begin

unbundle bit_operations_syntax

text \<open>
  A model of the NTRIP client: the class NtripClient with its Base64 helper, its
  connection handshake (Run), its streaming thread (ThreadHandler) and Stop. The object
  is a record, and everything outside it (the sockets, the peer, the clock, the console
  and the streaming thread's position in its code) is a second record that each operation
  takes and returns. Exceptions and early returns are values; the polling loop of Run,
  which need not end, is a partial function into the option type.

  Not modelled: the memory for the receive buffers and the creation of the thread are
  taken to succeed, \<open>send\<close> never raises a signal, and the owner and the streaming
  thread interleave at whole iterations of the streaming loop, so the unsynchronised
  accesses to the position report are not visible.
\<close>

section \<open>The Base64 encoder\<close>

text \<open>
  The table \<open>b\<close> and the function \<open>base64_encode\<close> of the source. The locals
  \<open>val\<close> and \<open>valb\<close> are C++ \<open>int\<close>s. \<open>val\<close> is shifted left by eight bits
  for every input byte and never masked, so it is a 32-bit word here and the shift drops
  the bits that leave the word; \<open>>>\<close> on it is the arithmetic shift. \<open>valb\<close> stays
  between -6 and 6 and is an unbounded integer.
\<close>

definition b :: string where
  "b = ''ABCDEFGHIJKLMNOPQRSTUVWXYZabcdefghijklmnopqrstuvwxyz0123456789+/''"

text \<open>The inner loop \<open>while (valb >= 0)\<close>.\<close>

function emit :: "32 word \<Rightarrow> int \<Rightarrow> string \<Rightarrow> int \<times> string" where
  "emit val valb out =
     (if valb \<ge> 0
      then emit val (valb - 6) (out @ [b ! unat (signed_drop_bit (nat valb) val AND 0x3F)])
      else (valb, out))"
  by pat_completeness auto
termination
  by (relation "measure (\<lambda>(val, valb, out). nat (valb + 1))") auto

declare emit.simps [simp del]

text \<open>The loop over the input bytes.\<close>

fun encode_loop :: "string \<Rightarrow> 32 word \<Rightarrow> int \<Rightarrow> string \<Rightarrow> 32 word \<times> int \<times> string" where
  "encode_loop [] val valb out = (val, valb, out)"
| "encode_loop (c # cs) val valb out =
     (let val' = push_bit 8 val + of_char c;
          (valb', out') = emit val' (valb + 8) out
      in encode_loop cs val' valb' out')"

text \<open>The loop \<open>while (out.size() % 4)\<close>.\<close>

function pad :: "string \<Rightarrow> string" where
  "pad out = (if length out mod 4 \<noteq> 0 then pad (out @ [CHR ''='']) else out)"
  by pat_completeness auto
termination
proof (relation "measure (\<lambda>out. (4 - length out mod 4) mod 4)")
  show "wf (measure (\<lambda>out::string. (4 - length out mod 4) mod 4))"
    by simp
next
  fix out :: string
  assume nz: "length out mod 4 \<noteq> 0"
  have lt: "length out mod 4 < 4"
    by simp
  have "(4 - Suc (length out) mod 4) mod 4 < (4 - length out mod 4) mod 4"
    using nz lt unfolding mod_Suc by (cases "Suc (length out mod 4) = 4") simp_all
  then show "(out @ [CHR ''=''], out) \<in> measure (\<lambda>out. (4 - length out mod 4) mod 4)"
    by simp
qed

declare pad.simps [simp del]

definition base64_encode :: "string \<Rightarrow> string" where
  "base64_encode inp =
     (let (val, valb, out) = encode_loop inp 0 (-6) [];
          out' = (if valb > -6
                  then out @ [b ! unat (signed_drop_bit (nat (valb + 8)) (push_bit 8 val) AND 0x3F)]
                  else out)
      in pad out')"


subsection \<open>Standard Base64, from its specification\<close>

text \<open>
  The encoding as the specification words it: the alphabet \<open>A-Z a-z 0-9 + /\<close>, three
  bytes to four digits of six bits each, and \<open>=\<close> padding to a multiple of four
  characters. The decoder is the inverse direction, written from the same description; the
  repository has none.
\<close>

definition std_alphabet :: string where
  "std_alphabet = ''ABCDEFGHIJKLMNOPQRSTUVWXYZ'' @ ''abcdefghijklmnopqrstuvwxyz'' @ ''0123456789'' @ ''+/''"

definition digit :: "nat \<Rightarrow> char" where
  "digit n = std_alphabet ! n"

fun std_base64 :: "string \<Rightarrow> string" where
  "std_base64 (x # y # z # rest) =
     [digit (of_char x div 4),
      digit (of_char x mod 4 * 16 + of_char y div 16),
      digit (of_char y mod 16 * 4 + of_char z div 64),
      digit (of_char z mod 64)] @ std_base64 rest"
| "std_base64 [x, y] =
     [digit (of_char x div 4),
      digit (of_char x mod 4 * 16 + of_char y div 16),
      digit (of_char y mod 16 * 4),
      CHR ''='']"
| "std_base64 [x] =
     [digit (of_char x div 4),
      digit (of_char x mod 4 * 16),
      CHR ''='',
      CHR ''='']"
| "std_base64 [] = []"

fun index_of :: "'a \<Rightarrow> 'a list \<Rightarrow> nat" where
  "index_of x [] = 0"
| "index_of x (y # ys) = (if x = y then 0 else Suc (index_of x ys))"

definition digit_value :: "char \<Rightarrow> nat option" where
  "digit_value c = (if c \<in> set std_alphabet then Some (index_of c std_alphabet) else None)"

fun std_base64_decode :: "string \<Rightarrow> string option" where
  "std_base64_decode [] = Some []"
| "std_base64_decode (p # q # r # s # rest) =
     (case (digit_value p, digit_value q) of
        (Some n1, Some n2) \<Rightarrow>
          (if rest = [] \<and> r = CHR ''='' \<and> s = CHR ''=''
           then Some [char_of (n1 * 4 + n2 div 16)]
           else case digit_value r of
             None \<Rightarrow> None
           | Some n3 \<Rightarrow>
               (if rest = [] \<and> s = CHR ''=''
                then Some [char_of (n1 * 4 + n2 div 16), char_of (n2 mod 16 * 16 + n3 div 4)]
                else case digit_value s of
                  None \<Rightarrow> None
                | Some n4 \<Rightarrow>
                    map_option
                      (\<lambda>bs. [char_of (n1 * 4 + n2 div 16),
                             char_of (n2 mod 16 * 16 + n3 div 4),
                             char_of (n3 mod 4 * 64 + n4)] @ bs)
                      (std_base64_decode rest)))
      | _ \<Rightarrow> None)"
| "std_base64_decode _ = None"


subsection \<open>Auxiliary definitions for the proofs\<close>

text \<open>
  One step of the accumulator, \<open>val = (val << 8) + c\<close>, and the code after the byte
  loop as a function of the loop's final state.
\<close>

definition acc :: "32 word \<Rightarrow> nat \<Rightarrow> 32 word" where
  "acc v n = push_bit 8 v + of_nat n"

definition finish :: "32 word \<times> int \<times> string \<Rightarrow> string" where
  "finish st = (case st of (val, valb, out) \<Rightarrow>
     pad (if valb > -6
          then out @ [b ! unat (signed_drop_bit (nat (valb + 8)) (push_bit 8 val) AND 0x3F)]
          else out))"

section \<open>The client object and the world it runs in\<close>

text \<open>
  The fields of class NtripClient in the header. The member names of the source end in
  an underscore (\<open>sockfd_\<close>, \<open>running_\<close>, ...), which is not a legal name here, so
  the underscore is dropped. The member \<open>std::thread thread_\<close> is modelled by what the
  code can observe of it: whether it is joinable.
\<close>

datatype thread_handle = Not_joinable | Joinable

record NtripClient =
  host :: string
  port :: string
  mountpoint :: string
  username :: string
  password :: string
  sockfd :: int
  gga_buffer :: string
  thread :: thread_handle
  initialized :: bool
  connected :: bool
  authenticated :: bool
  running :: bool

text \<open>The default member initialisers of the header: \<open>NtripClient() = default\<close>.\<close>

definition NtripClient_default :: NtripClient where
  "NtripClient_default =
     \<lparr>host = [], port = [], mountpoint = [], username = [], password = [],
      sockfd = -1, gga_buffer = [], thread = Not_joinable,
      initialized = False, connected = False, authenticated = False, running = False\<rparr>"

text \<open>The constructor with the connection details.\<close>

definition NtripClient_with :: "string \<Rightarrow> string \<Rightarrow> string \<Rightarrow> string \<Rightarrow> string \<Rightarrow> NtripClient" where
  "NtripClient_with h p m u pw =
     NtripClient_default
       \<lparr>host := h, port := p, mountpoint := m, username := u, password := pw,
        initialized := True\<rparr>"

text \<open>
  What \<open>recv\<close> hands back: the bytes written to the buffer (the return value is their
  number, zero when the peer has closed), or -1 with \<open>errno\<close> set. The buffer holds
  \<open>buffer_size\<close> bytes, so a real \<open>recv\<close> returns no more than that; nothing
  below depends on it.
\<close>

datatype recv_result = Received string | Failed int

fun ret_of :: "recv_result \<Rightarrow> int" where
  "ret_of (Received bs) = int (length bs)"
| "ret_of (Failed e) = -1"

fun data_of :: "recv_result \<Rightarrow> string" where
  "data_of (Received bs) = bs"
| "data_of (Failed e) = []"

fun errno_of :: "recv_result \<Rightarrow> int" where
  "errno_of (Received bs) = 0"
| "errno_of (Failed e) = e"

text \<open>
  The lines written to \<open>std::cout\<close> and \<open>std::cerr\<close>, one constructor per output
  statement of the source, carrying the values that are printed (their formatting is not
  modelled).
\<close>

datatype message =
    Err_resolve
  | Err_socket
  | Err_connect
  | Err_send_request
  | Err_send_gga
  | Msg_gga_sent
  | Msg_gga_empty
  | Err_request_result string
  | Err_remote_closed
  | Msg_ret int
  | Err_access_failed
  | Err_not_initialized
  | Err_not_connected
  | Err_not_authenticated
  | Err_socket_not_created
  | Msg_service_running
  | Msg_remote_closed
  | Err_remote_socket int
  | Msg_data_received string
  | Msg_service_done

text \<open>
  Where the background thread stands: not started, started but not yet past the checks at
  the top of ThreadHandler, at the head of its loop (with the local \<open>start_time\<close>), or
  returned (with the value ThreadHandler returned).
\<close>

datatype worker_state = No_worker | Worker_spawned | Worker_loop int | Worker_done bool

text \<open>
  Everything outside the object. The first six fields are the answers the operating system
  and the peer will give: the status of \<open>getaddrinfo\<close>, the results of \<open>socket\<close>
  and \<open>connect\<close>, the result of the n-th \<open>send\<close> and of the n-th \<open>recv\<close>, and
  the n-th reading of the steady clock in nanoseconds. The others are state: the
  descriptors that are open, the buffers passed to \<open>send\<close> so far, how many \<open>recv\<close>
  calls and clock readings were made, the time slept, the console output, and the worker thread.
\<close>

record world =
  getaddrinfo_ret :: int
  socket_ret :: int
  connect_ret :: int
  send_ret :: "nat \<Rightarrow> int"
  recv_ret :: "nat \<Rightarrow> recv_result"
  clock_ns :: "nat \<Rightarrow> int"
  open_fds :: "int set"
  sent :: "(int \<times> string) list"
  recvs :: nat
  clock_reads :: nat
  slept_ms :: nat
  console :: "message list"
  worker :: worker_state

definition sys_socket :: "world \<Rightarrow> int \<times> world" where
  "sys_socket w =
     (socket_ret w,
      if 0 \<le> socket_ret w then w\<lparr>open_fds := insert (socket_ret w) (open_fds w)\<rparr> else w)"

definition sys_close :: "int \<Rightarrow> world \<Rightarrow> world" where
  "sys_close fd w = w\<lparr>open_fds := open_fds w - {fd}\<rparr>"

definition sys_send :: "int \<Rightarrow> string \<Rightarrow> world \<Rightarrow> int \<times> world" where
  "sys_send fd buf w = (send_ret w (length (sent w)), w\<lparr>sent := sent w @ [(fd, buf)]\<rparr>)"

definition sys_recv :: "world \<Rightarrow> recv_result \<times> world" where
  "sys_recv w = (recv_ret w (recvs w), w\<lparr>recvs := Suc (recvs w)\<rparr>)"

definition steady_clock_now :: "world \<Rightarrow> int \<times> world" where
  "steady_clock_now w = (clock_ns w (clock_reads w), w\<lparr>clock_reads := Suc (clock_reads w)\<rparr>)"

definition sleep_for :: "nat \<Rightarrow> world \<Rightarrow> world" where
  "sleep_for ms w = w\<lparr>slept_ms := slept_ms w + ms\<rparr>"

definition print :: "message \<Rightarrow> world \<Rightarrow> world" where
  "print m w = w\<lparr>console := console w @ [m]\<rparr>"

text \<open>The constants at the top of the source file.\<close>

definition buffer_size :: int where
  "buffer_size = 4096"

definition socket_timeout :: int where
  "socket_timeout = 50"

definition reporting_interval_ms :: int where
  "reporting_interval_ms = 1000"

text \<open>The values of \<open><errno.h>\<close> on Linux, where the two names of "would block" coincide.\<close>

definition EINTR :: int where
  "EINTR = 4"

definition EAGAIN :: int where
  "EAGAIN = 11"

definition EWOULDBLOCK :: int where
  "EWOULDBLOCK = 11"

text \<open>
  The exceptions the code can leave through: \<open>std::stoi\<close> on the port string,
  \<open>join\<close> on a thread that is not joinable, and \<open>std::terminate\<close> when a joinable
  \<open>std::thread\<close> is assigned to.
\<close>

datatype error = Invalid_argument | Out_of_range | System_error | Terminate

definition isspace :: "char \<Rightarrow> bool" where
  "isspace ch = (ch \<in> set [CHR '' '', CHR 0x09, CHR 0x0A, CHR 0x0B, CHR 0x0C, CHR 0x0D])"

definition isdigit :: "char \<Rightarrow> bool" where
  "isdigit ch = (48 \<le> (of_char ch :: nat) \<and> (of_char ch :: nat) \<le> 57)"

definition digits_value :: "string \<Rightarrow> nat" where
  "digits_value ds = foldl (\<lambda>a ch. a * 10 + (of_char ch - 48)) 0 ds"

definition stoi :: "string \<Rightarrow> error + int" where
  "stoi s =
     (let s1 = dropWhile isspace s;
          neg = (s1 \<noteq> [] \<and> hd s1 = CHR ''-'');
          s2 = (if s1 \<noteq> [] \<and> (hd s1 = CHR ''-'' \<or> hd s1 = CHR ''+'') then tl s1 else s1);
          ds = takeWhile isdigit s2
      in if ds = [] then Inl Invalid_argument
         else let v = (if neg then - int (digits_value ds) else int (digits_value ds))
              in if v < - 2147483648 \<or> 2147483647 < v then Inl Out_of_range else Inr v)"

text \<open>\<open>std::string::find\<close>: the first position at which the needle starts, or npos.\<close>

fun find_str :: "string \<Rightarrow> string \<Rightarrow> nat option" where
  "find_str [] needle = (if needle = [] then Some 0 else None)"
| "find_str (h # t) needle =
     (if prefix needle (h # t) then Some 0 else map_option Suc (find_str t needle))"

subsection \<open>Init, IsRunning, UpdateGGA, Cleanup\<close>

definition Init :: "string \<Rightarrow> string \<Rightarrow> string \<Rightarrow> string \<Rightarrow> string \<Rightarrow> NtripClient \<Rightarrow> bool \<times> NtripClient" where
  "Init h p m u pw c =
     (True, c\<lparr>host := h, port := p, mountpoint := m, username := u, password := pw,
              initialized := True\<rparr>)"

definition IsRunning :: "NtripClient \<Rightarrow> bool" where
  "IsRunning c = running c"

definition UpdateGGA :: "string \<Rightarrow> NtripClient \<Rightarrow> NtripClient" where
  "UpdateGGA gga c = c\<lparr>gga_buffer := gga\<rparr>"

definition Cleanup :: "NtripClient \<Rightarrow> world \<Rightarrow> NtripClient \<times> world" where
  "Cleanup c w =
     (if sockfd c > 0 then (c\<lparr>sockfd := -1\<rparr>, sys_close (sockfd c) w) else (c, w))"

subsection \<open>ThreadHandler\<close>

text \<open>
  ThreadHandler runs on its own thread while the owner of the object goes on, so it is
  modelled in the three pieces the scheduler can interleave with the owner's calls: the
  checks before the loop, one iteration of the loop body, and the code after the loop.
  A piece that executes \<open>return\<close> yields \<open>Inl\<close> with the value returned.
\<close>

definition ThreadHandler_entry :: "NtripClient \<Rightarrow> world \<Rightarrow> (bool \<times> NtripClient \<times> world) + (NtripClient \<times> world \<times> int)" where
  "ThreadHandler_entry c w =
     (if \<not> initialized c then
        (let (c', w') = Cleanup c (print Err_not_initialized w) in Inl (False, c', w'))
      else if \<not> connected c then
        (let (c', w') = Cleanup c (print Err_not_connected w) in Inl (False, c', w'))
      else if \<not> authenticated c then
        (let (c', w') = Cleanup c (print Err_not_authenticated w) in Inl (False, c', w'))
      else if sockfd c < 0 then
        (let (c', w') = Cleanup c (print Err_socket_not_created w) in Inl (False, c', w'))
      else
        (let (start_time, w1) = steady_clock_now w
         in Inr (c, print Msg_service_running w1, start_time)))"

text \<open>The first half of the loop body: the receive and the branch on its result.\<close>

definition ThreadHandler_recv :: "NtripClient \<Rightarrow> world \<Rightarrow> (bool \<times> NtripClient \<times> world) + (NtripClient \<times> world)" where
  "ThreadHandler_recv c w =
     (let (r, w1) = sys_recv w; ret = ret_of r; errno = errno_of r in
      if ret = 0 then Inr (c, print Msg_remote_closed w1)
      else if ret < 0 then
        (if errno \<noteq> 0 \<and> errno \<noteq> EAGAIN \<and> errno \<noteq> EWOULDBLOCK \<and> errno \<noteq> EINTR then
           (let (c', w') = Cleanup c (print (Err_remote_socket errno) w1) in Inl (False, c', w'))
         else Inr (c, w1))
      else Inr (c, print (Msg_data_received (data_of r)) w1))"

text \<open>
  \<open>duration_cast<milliseconds>\<close> of a difference of clock readings: integer division
  that truncates towards zero.
\<close>

definition elapsed_ms :: "int \<Rightarrow> int \<Rightarrow> int" where
  "elapsed_ms start_time end_time =
     sgn (end_time - start_time) * (\<bar>end_time - start_time\<bar> div 1000000)"

text \<open>The second half of the loop body: the periodic position report.\<close>

definition ThreadHandler_report :: "NtripClient \<Rightarrow> world \<Rightarrow> int \<Rightarrow> (bool \<times> NtripClient \<times> world) + (NtripClient \<times> world \<times> int)" where
  "ThreadHandler_report c w start_time =
     (let (end_time, w1) = steady_clock_now w in
      if elapsed_ms start_time end_time \<ge> reporting_interval_ms then
        (let (start_time', w2) = steady_clock_now w1 in
         if gga_buffer c \<noteq> [] then
           (let (ret, w3) = sys_send (sockfd c) (gga_buffer c) w2 in
            if ret < 0 then
              (let (c', w') = Cleanup c (print Err_send_gga w3) in Inl (False, c', w'))
            else Inr (c, w3, start_time'))
         else Inr (c, w2, start_time'))
      else Inr (c, w1, start_time))"

definition ThreadHandler_body :: "NtripClient \<Rightarrow> world \<Rightarrow> int \<Rightarrow> (bool \<times> NtripClient \<times> world) + (NtripClient \<times> world \<times> int)" where
  "ThreadHandler_body c w start_time =
     (case ThreadHandler_recv c w of
        Inl r \<Rightarrow> Inl r
      | Inr (c1, w1) \<Rightarrow>
          (case ThreadHandler_report c1 w1 start_time of
             Inl r \<Rightarrow> Inl r
           | Inr (c2, w2, start_time') \<Rightarrow> Inr (c2, sleep_for 10 w2, start_time')))"

text \<open>
  The two fatal I/O errors of an iteration, read off the world at its start: the receive
  returns -1 with an \<open>errno\<close> the loop does not absorb; or the position report is due
  (the next clock reading is at least the reporting interval after \<open>start_time\<close>),
  there is a report to send, and the next \<open>send\<close> returns a negative value.
\<close>

definition recv_fails_fatally :: "world \<Rightarrow> bool" where
  "recv_fails_fatally w =
     (case recv_ret w (recvs w) of
        Received bs \<Rightarrow> False
      | Failed e \<Rightarrow> e \<noteq> 0 \<and> e \<noteq> EAGAIN \<and> e \<noteq> EWOULDBLOCK \<and> e \<noteq> EINTR)"

definition report_send_fails :: "NtripClient \<Rightarrow> world \<Rightarrow> int \<Rightarrow> bool" where
  "report_send_fails c w start_time =
     (elapsed_ms start_time (clock_ns w (clock_reads w)) \<ge> reporting_interval_ms
      \<and> gga_buffer c \<noteq> []
      \<and> send_ret w (length (sent w)) < 0)"

definition ThreadHandler_exit :: "NtripClient \<Rightarrow> world \<Rightarrow> bool \<times> NtripClient \<times> world" where
  "ThreadHandler_exit c w = (let (c', w') = Cleanup c w in (True, c', print Msg_service_done w'))"

text \<open>
  One turn of the worker thread: the checks when it has just been started, otherwise the
  test \<open>while (running_)\<close> followed by one iteration of the body or by the exit code.
  The flag it reads is the one in the shared object, so a Stop by the owner between two
  turns is seen at the next one.
\<close>

definition worker_turn :: "NtripClient \<Rightarrow> world \<Rightarrow> NtripClient \<times> world" where
  "worker_turn c w =
     (case worker w of
        Worker_spawned \<Rightarrow>
          (case ThreadHandler_entry c w of
             Inl (r, c', w') \<Rightarrow> (c', w'\<lparr>worker := Worker_done r\<rparr>)
           | Inr (c', w', start_time) \<Rightarrow> (c', w'\<lparr>worker := Worker_loop start_time\<rparr>))
      | Worker_loop start_time \<Rightarrow>
          (if running c then
             (case ThreadHandler_body c w start_time of
                Inl (r, c', w') \<Rightarrow> (c', w'\<lparr>worker := Worker_done r\<rparr>)
              | Inr (c', w', start_time') \<Rightarrow> (c', w'\<lparr>worker := Worker_loop start_time'\<rparr>))
           else
             (case ThreadHandler_exit c w of
                (r, c', w') \<Rightarrow> (c', w'\<lparr>worker := Worker_done r\<rparr>)))
      | _ \<Rightarrow> (c, w))"

text \<open>
  \<open>thread_.join()\<close> as Stop calls it, after it has cleared the flag: the worker takes
  its remaining turns, at most two (the checks, then the loop test that now fails).
\<close>

definition join :: "NtripClient \<Rightarrow> world \<Rightarrow> NtripClient \<times> world" where
  "join c w = (let (c1, w1) = worker_turn c w in worker_turn c1 w1)"

subsection \<open>Stop\<close>

definition Stop :: "NtripClient \<Rightarrow> world \<Rightarrow> (error + unit) \<times> NtripClient \<times> world" where
  "Stop c w =
     (if running c then
        (let c1 = c\<lparr>running := False\<rparr> in
         case thread c1 of
           Not_joinable \<Rightarrow> (Inl System_error, c1, w)
         | Joinable \<Rightarrow>
             (let (c2, w2) = join c1 w;
                  c3 = c2\<lparr>thread := Not_joinable\<rparr>
              in (Inr (), c3, sys_close (sockfd c3) w2)))
      else (Inr (), c, w))"

text \<open>The destructor.\<close>

definition NtripClient_destroy :: "NtripClient \<Rightarrow> world \<Rightarrow> (error + unit) \<times> NtripClient \<times> world" where
  "NtripClient_destroy c w = (if IsRunning c then Stop c w else (Inr (), c, w))"

subsection \<open>Run\<close>

definition CRLF :: string where
  "CRLF = [CHR 0x0D, CHR 0x0A]"

definition full_request :: "NtripClient \<Rightarrow> string" where
  "full_request c =
     (let user_pass = username c @ '':'' @ password c;
          user_pass_b64 = base64_encode user_pass;
          request = ''GET /'' @ mountpoint c @ '' HTTP/1.1'' @ CRLF;
          user_agent = ''User-Agent: NTRIP NTRIPClient/1.2.0.b431661'' @ CRLF;
          authorization = ''Authorization: Basic '' @ user_pass_b64 @ CRLF;
          request_end = CRLF
      in request @ user_agent @ authorization @ request_end)"

text \<open>
  Run up to and including the sending of the request. \<open>Inl\<close> is a return (or an
  exception) of Run, \<open>Inr\<close> the state in which the polling loop is entered.
\<close>

definition Run_connect :: "NtripClient \<Rightarrow> world \<Rightarrow> ((error + bool) \<times> NtripClient \<times> world) + (NtripClient \<times> world)" where
  "Run_connect c0 w0 =
     (case (if IsRunning c0 then Stop c0 w0 else (Inr (), c0, w0)) of
        (Inl e, c, w) \<Rightarrow> Inl (Inl e, c, w)
      | (Inr u, c, w) \<Rightarrow>
          (case stoi (port c) of
             Inl e \<Rightarrow> Inl (Inl e, c, w)
           | Inr p \<Rightarrow>
               if getaddrinfo_ret w \<noteq> 0 then Inl (Inr False, c, print Err_resolve w)
               else
                 (let (fd, w1) = sys_socket w; c1 = c\<lparr>sockfd := fd\<rparr> in
                  if sockfd c1 < 0 then Inl (Inr False, c1, print Err_socket w1)
                  else if connect_ret w1 < 0 then
                    Inl (Inr False, c1, sys_close (sockfd c1) (print Err_connect w1))
                  else
                    (let c2 = c1\<lparr>connected := True\<rparr>;
                         (ret, w2) = sys_send (sockfd c2) (full_request c2) w1 in
                     if ret \<le> 0 then
                       Inl (Inr False, c2, sys_close (sockfd c2) (print Err_send_request w2))
                     else Inr (c2, w2)))))"

text \<open>
  One pass through the body of the polling loop, up to but not including the sleep: it
  ends in a \<open>return\<close> of Run, in a \<open>break\<close>, or by falling through to the sleep.
\<close>

datatype poll_step =
    Poll_return bool NtripClient world
  | Poll_break NtripClient world
  | Poll_continue NtripClient world

definition poll_attempt :: "NtripClient \<Rightarrow> world \<Rightarrow> poll_step" where
  "poll_attempt c w =
     (let (r, w1) = sys_recv w; ret = ret_of r in
      if ret > 0 then
        (let result = data_of r in
         if find_str result ''HTTP/1.1 200 OK'' \<noteq> None \<or> find_str result ''ICY 200 OK'' \<noteq> None then
           (let c1 = c\<lparr>authenticated := True\<rparr> in
            if gga_buffer c1 \<noteq> [] then
              (let (ret', w2) = sys_send (sockfd c1) (gga_buffer c1) w1 in
               if ret' \<le> 0 then
                 Poll_return False c1 (sys_close (sockfd c1) (print Err_send_gga w2))
               else Poll_break c1 (print Msg_gga_sent w2))
            else Poll_break c1 (print Msg_gga_empty w1))
         else Poll_continue c (print (Err_request_result result) w1))
      else if ret = 0 then
        Poll_return False c (sys_close (sockfd c) (print Err_remote_closed w1))
      else Poll_continue c (print (Msg_ret ret) w1))"

text \<open>
  The loop \<open>while (timeout < socket_timeout)\<close>. Nothing in its body assigns to
  \<open>timeout\<close>, so the recursive call passes the same value on. The loop need not end,
  hence the option type: \<open>None\<close> is a Run that never returns.
\<close>

datatype poll_exit =
    Loop_returned bool NtripClient world
  | Loop_left int NtripClient world

partial_function (option) handshake_poll :: "int \<Rightarrow> NtripClient \<Rightarrow> world \<Rightarrow> poll_exit option" where
  "handshake_poll timeout c w =
     (if timeout < socket_timeout then
        (case poll_attempt c w of
           Poll_return r c' w' \<Rightarrow> Some (Loop_returned r c' w')
         | Poll_break c' w' \<Rightarrow> Some (Loop_left timeout c' w')
         | Poll_continue c' w' \<Rightarrow> handshake_poll timeout c' (sleep_for 100 w'))
      else Some (Loop_left timeout c w))"

declare handshake_poll.simps [code]

text \<open>Run after the loop: the timeout test, then the start of the thread.\<close>

definition Run_finish :: "int \<Rightarrow> NtripClient \<Rightarrow> world \<Rightarrow> (error + bool) \<times> NtripClient \<times> world" where
  "Run_finish timeout c w =
     (if timeout \<ge> socket_timeout then
        (Inr False, c, sys_close (sockfd c) (print Err_access_failed w))
      else
        (let c1 = c\<lparr>running := True\<rparr> in
         case thread c1 of
           Joinable \<Rightarrow> (Inl Terminate, c1, w)
         | Not_joinable \<Rightarrow> (Inr True, c1\<lparr>thread := Joinable\<rparr>, w\<lparr>worker := Worker_spawned\<rparr>)))"

text \<open>Run from \<open>int timeout = 0\<close> to its end.\<close>

definition Run_handshake :: "NtripClient \<Rightarrow> world \<Rightarrow> ((error + bool) \<times> NtripClient \<times> world) option" where
  "Run_handshake c w =
     (case handshake_poll 0 c w of
        None \<Rightarrow> None
      | Some (Loop_returned r c' w') \<Rightarrow> Some (Inr r, c', w')
      | Some (Loop_left timeout c' w') \<Rightarrow> Some (Run_finish timeout c' w'))"

definition Run :: "NtripClient \<Rightarrow> world \<Rightarrow> ((error + bool) \<times> NtripClient \<times> world) option" where
  "Run c w =
     (case Run_connect c w of
        Inl r \<Rightarrow> Some r
      | Inr (c', w') \<Rightarrow> Run_handshake c' w')"


subsection \<open>The invariant of the specification, and concrete runs\<close>

text \<open>
  The invariant the specification states about the socket handle: it is non-negative
  whenever the state is Connected or later, that is, whenever one of the three flags is set.
\<close>

definition socket_valid :: "NtripClient \<Rightarrow> bool" where
  "socket_valid c = (connected c \<or> authenticated c \<or> running c \<longrightarrow> 0 \<le> sockfd c)"

text \<open>
  The states a program can bring the object to: it starts from a newly constructed
  object with no worker thread, and then calls Init, UpdateGGA, Run and Stop in any order,
  while the worker thread takes its turns in between.
\<close>

inductive reachable :: "NtripClient \<Rightarrow> world \<Rightarrow> bool" where
  constructed: "worker w = No_worker \<Longrightarrow> reachable NtripClient_default w"
| constructed_with: "worker w = No_worker \<Longrightarrow> reachable (NtripClient_with h p m u pw) w"
| after_Init: "reachable c w \<Longrightarrow> reachable (snd (Init h p m u pw c)) w"
| after_UpdateGGA: "reachable c w \<Longrightarrow> reachable (UpdateGGA gga c) w"
| after_Run: "reachable c w \<Longrightarrow> Run c w = Some (r, c', w') \<Longrightarrow> reachable c' w'"
| after_Stop: "reachable c w \<Longrightarrow> Stop c w = (r, c', w') \<Longrightarrow> reachable c' w'"
| after_turn: "reachable c w \<Longrightarrow> worker_turn c w = (c', w') \<Longrightarrow> reachable c' w'"

code_pred reachable .

text \<open>
  The worker thread has been started and has not returned from ThreadHandler; and the
  part of the invariant above that the code maintains: while the running flag is set and
  the thread is alive, the object is connected and authenticated and holds a non-negative
  handle.
\<close>

fun worker_alive :: "worker_state \<Rightarrow> bool" where
  "worker_alive Worker_spawned = True"
| "worker_alive (Worker_loop start_time) = True"
| "worker_alive No_worker = False"
| "worker_alive (Worker_done r) = False"

definition streaming_socket_valid :: "NtripClient \<Rightarrow> world \<Rightarrow> bool" where
  "streaming_socket_valid c w =
     (running c \<and> worker_alive (worker w) \<longrightarrow>
        connected c \<and> authenticated c \<and> 0 \<le> sockfd c)"

text \<open>
  What the polling loop leaves alone in the object: the descriptor, the connected flag and
  the running flag.
\<close>

definition same_socket :: "NtripClient \<Rightarrow> NtripClient \<Rightarrow> bool" where
  "same_socket c c' =
     (sockfd c' = sockfd c \<and> connected c' = connected c \<and> running c' = running c)"

text \<open>
  A configured client with a position report stored, as \<open>main\<close> sets one up, and a
  world in which resolution, \<open>socket\<close> (descriptor 3), \<open>connect\<close> and every
  \<open>send\<close> succeed; what the peer sends is the parameter. Four peers: one that never
  sends anything (every \<open>recv\<close> would block), one that accepts the request and then
  resets the connection (\<open>errno\<close> 104), one that closes the connection at once, and
  one that sends an interim response before it accepts the request.
\<close>

definition demo_client :: NtripClient where
  "demo_client =
     UpdateGGA ''$GPGGA,1''
       (snd (Init ''caster'' ''2101'' ''MOUNT'' ''user'' ''pass'' NtripClient_default))"

definition demo_world :: "(nat \<Rightarrow> recv_result) \<Rightarrow> world" where
  "demo_world peer =
     \<lparr>getaddrinfo_ret = 0, socket_ret = 3, connect_ret = 0, send_ret = (\<lambda>n. 8),
      recv_ret = peer, clock_ns = (\<lambda>n. int n * 10000000),
      open_fds = {}, sent = [], recvs = 0, clock_reads = 0, slept_ms = 0, console = [],
      worker = No_worker\<rparr>"

definition silent_peer :: "nat \<Rightarrow> recv_result" where
  "silent_peer n = Failed EAGAIN"

definition resetting_peer :: "nat \<Rightarrow> recv_result" where
  "resetting_peer n = (if n = 0 then Received ''ICY 200 OK'' else Failed 104)"

definition closing_peer :: "nat \<Rightarrow> recv_result" where
  "closing_peer n = Received []"

definition interim_peer :: "nat \<Rightarrow> recv_result" where
  "interim_peer n =
     (if n = 0 then Received ''HTTP/1.1 100 Continue'' else Received ''ICY 200 OK'')"

text \<open>
  The state in which Run enters its polling loop, and the state in which a successful Run
  leaves \<open>demo_client\<close>, given the peer.
\<close>

definition connected_client :: NtripClient where
  "connected_client = demo_client\<lparr>sockfd := 3, connected := True\<rparr>"

definition connected_world :: "(nat \<Rightarrow> recv_result) \<Rightarrow> world" where
  "connected_world peer =
     (demo_world peer)\<lparr>open_fds := {3}, sent := [(3, full_request demo_client)]\<rparr>"

definition streaming_client :: NtripClient where
  "streaming_client =
     demo_client\<lparr>sockfd := 3, connected := True, authenticated := True, running := True,
                 thread := Joinable\<rparr>"

definition streaming_world :: "(nat \<Rightarrow> recv_result) \<Rightarrow> world" where
  "streaming_world peer =
     (demo_world peer)
       \<lparr>open_fds := {3},
        sent := [(3, full_request demo_client), (3, ''$GPGGA,1'')],
        recvs := 1,
        console := [Msg_gga_sent],
        worker := Worker_spawned\<rparr>"

text \<open>
  The same world once the worker has passed the checks of ThreadHandler and stands at
  the head of its loop, and a number of consecutive turns of the worker.
\<close>

definition looping_world :: "(nat \<Rightarrow> recv_result) \<Rightarrow> world" where
  "looping_world peer =
     (streaming_world peer)
       \<lparr>clock_reads := 1,
        console := [Msg_gga_sent, Msg_service_running],
        worker := Worker_loop 0\<rparr>"

fun worker_turns :: "nat \<Rightarrow> NtripClient \<times> world \<Rightarrow> NtripClient \<times> world" where
  "worker_turns 0 cw = cw"
| "worker_turns (Suc n) cw = worker_turns n (worker_turn (fst cw) (snd cw))"

section \<open>Base64: the encoder computes the standard encoding\<close>

lemma index_as_div_mod: "k \<le> 26 \<Longrightarrow> unat (signed_drop_bit k (x::32 word) AND 0x3F) = unat x div 2 ^ k mod 64"
proof -
  assume k: "k \<le> 26"
  have "signed_drop_bit k x AND mask 6 = take_bit 6 (drop_bit k x)"
    by (rule bit_word_eqI) (use k in \<open>auto simp add: bit_simps\<close>)
  then have "unat (signed_drop_bit k x AND mask 6) = unat (take_bit 6 (drop_bit k x))" by simp
  also have "\<dots> = take_bit 6 (drop_bit k (unat x))"
    by (simp only: unsigned_take_bit_eq unat_drop_bit_eq)
  also have "\<dots> = unat x div 2 ^ k mod 64"
    by (simp add: take_bit_eq_mod drop_bit_eq_div)
  finally show ?thesis by (simp add: mask_eq_exp_minus_1)
qed

lemma unat_acc: "n < 256 \<Longrightarrow> unat (acc v n) = (unat v * 256 + n) mod 2 ^ 32"
proof -
  assume n: "n < 256"
  have "unat (acc v n) = (unat (push_bit 8 v) + unat (of_nat n :: 32 word)) mod 2 ^ 32"
    by (simp add: acc_def unat_word_ariths)
  also have "\<dots> = ((unat v * 256) mod 2 ^ 32 + n mod 2 ^ 32) mod 2 ^ 32"
    by (simp add: push_bit_eq_mult unat_word_ariths unat_of_nat)
  also have "\<dots> = (unat v * 256 + n) mod 2 ^ 32"
    by (simp only: mod_add_eq)
  finally show ?thesis .
qed

lemma lo16_acc: "n < 256 \<Longrightarrow> unat (acc v n) mod 65536 = (unat v mod 256) * 256 + n"
proof -
  assume n: "n < 256"
  have d: "(65536::nat) dvd 2 ^ 32" by simp
  have "unat (acc v n) mod 65536 = (unat v * 256 + n) mod 65536"
    by (simp only: unat_acc [OF n] mod_mod_cancel [OF d])
  also have "\<dots> = (unat v * 256 + n) mod (256 * 256)" by simp
  also have "\<dots> = 256 * ((unat v * 256 + n) div 256 mod 256) + (unat v * 256 + n) mod 256"
    by (simp only: mod_mult2_eq)
  also have "\<dots> = (unat v mod 256) * 256 + n"
    using n by simp
  finally show ?thesis .
qed

lemma lo8_acc: "n < 256 \<Longrightarrow> unat (acc v n) mod 256 = n"
proof -
  assume n: "n < 256"
  have d: "(256::nat) dvd 65536" by simp
  have "unat (acc v n) mod 256 = (unat (acc v n) mod 65536) mod 256"
    by (simp only: mod_mod_cancel [OF d])
  also have "\<dots> = n"
    using n by (simp only: lo16_acc [OF n]) simp
  finally show ?thesis .
qed

lemma index_low_half: "k \<le> 10 \<Longrightarrow> unat (signed_drop_bit k (x::32 word) AND 0x3F) = (unat x mod 65536) div 2 ^ k mod 64"
proof -
  assume k: "k \<le> 10"
  have "take_bit 6 (drop_bit k (unat x)) = take_bit 6 (drop_bit k (take_bit 16 (unat x)))"
    by (rule bit_eqI) (use k in \<open>auto simp add: bit_simps\<close>)
  then have "unat x div 2 ^ k mod 64 = (unat x mod 65536) div 2 ^ k mod 64"
    by (simp add: take_bit_eq_mod drop_bit_eq_div)
  with k show ?thesis by (simp add: index_as_div_mod)
qed

lemma mod_mult_add: "r < m \<Longrightarrow> (q * m + r) mod (m * k) = (q mod k) * m + (r::nat)"
  by (simp add: mod_mult2_eq)

lemma first_index_arith: "a < 256 \<Longrightarrow> (w * 256 + a) div 4 mod 64 = (a::nat) div 4"
proof -
  assume a: "a < 256"
  have "(w * 256 + a) div 4 = w * 64 + a div 4" by simp
  moreover have "a div 4 < 64" using a by simp
  ultimately show ?thesis by simp
qed

lemma second_index_arith: "y < 256 \<Longrightarrow> (x * 256 + y) div 16 mod 64 = x mod 4 * 16 + (y::nat) div 16"
proof -
  assume y: "y < 256"
  have "(x * 256 + y) div 16 = x * 16 + y div 16" by simp
  moreover have "y div 16 < 16" using y by simp
  ultimately show ?thesis using mod_mult_add [of "y div 16" 16 x 4] by simp
qed

lemma third_index_arith: "z < 256 \<Longrightarrow> (y * 256 + z) div 64 mod 64 = y mod 16 * 4 + (z::nat) div 64"
proof -
  assume z: "z < 256"
  have "(y * 256 + z) div 64 = y * 4 + z div 64" by simp
  moreover have "z div 64 < 4" using z by simp
  ultimately show ?thesis using mod_mult_add [of "z div 64" 4 y 16] by simp
qed

lemma fourth_index_arith: "(w * 256 + c) mod 64 = (c::nat) mod 64"
  using mod_mult_self3 [of "w * 4" 64 c] by (simp add: mult.commute)


lemma first_index: "x < 256 \<Longrightarrow> unat (signed_drop_bit 2 (acc v x) AND 0x3F) = x div 4"
  by (simp add: index_low_half lo16_acc first_index_arith)

lemma second_index: "x < 256 \<Longrightarrow> y < 256 \<Longrightarrow> unat (signed_drop_bit 4 (acc (acc v x) y) AND 0x3F) = (x mod 4) * 16 + y div 16"
  by (simp add: index_low_half lo16_acc lo8_acc second_index_arith)

lemma third_index: "y < 256 \<Longrightarrow> z < 256 \<Longrightarrow> unat (signed_drop_bit 6 (acc (acc v y) z) AND 0x3F) = (y mod 16) * 4 + z div 64"
  by (simp add: index_low_half lo16_acc lo8_acc third_index_arith)

lemma fourth_index: "z < 256 \<Longrightarrow> unat (acc v z AND 0x3F) = z mod 64"
  using index_low_half [of 0 "acc v z"] by (simp add: lo16_acc fourth_index_arith)

lemma push_acc: "push_bit 8 v = acc v 0"
  by (simp add: acc_def)

lemma tail_index_one_byte: "x < 256 \<Longrightarrow> unat (signed_drop_bit 4 (push_bit 8 (acc v x)) AND 0x3F) = (x mod 4) * 16"
  using second_index [of x 0 v] by (simp add: push_acc)

lemma tail_index_two_bytes: "y < 256 \<Longrightarrow> unat (signed_drop_bit 6 (push_bit 8 (acc v y)) AND 0x3F) = (y mod 16) * 4"
  using third_index [of y 0 v] by (simp add: push_acc)

lemma step_acc: "push_bit 8 v + of_char c = acc v (of_char c)"
  by (simp add: acc_def of_nat_of_char)

lemma emit2: "emit val 2 out = (-4, out @ [b ! unat (signed_drop_bit 2 val AND 0x3F)])"
  by (simp add: emit.simps)

lemma emit4: "emit val 4 out = (-2, out @ [b ! unat (signed_drop_bit 4 val AND 0x3F)])"
  by (simp add: emit.simps)

lemma emit6: "emit val 6 out = (-6, out @ [b ! unat (signed_drop_bit 6 val AND 0x3F), b ! unat (signed_drop_bit 0 val AND 0x3F)])"
  by (simp add: emit.simps)


text \<open>The test vectors of RFC 4648 for the encoding written from the specification.\<close>

lemma rfc4648_test_vectors:
  "std_base64 [] = []"
  "std_base64 ''f'' = ''Zg==''"
  "std_base64 ''fo'' = ''Zm8=''"
  "std_base64 ''foo'' = ''Zm9v''"
  "std_base64 ''foob'' = ''Zm9vYg==''"
  "std_base64 ''fooba'' = ''Zm9vYmE=''"
  "std_base64 ''foobar'' = ''Zm9vYmFy''"
  by code_simp+

text \<open>The table of the source is the standard alphabet.\<close>

lemma b_std: "b = std_alphabet"
  by (simp add: b_def std_alphabet_def)

lemma length_std_alphabet: "length std_alphabet = 64"
  by (simp add: std_alphabet_def)

lemma distinct_std_alphabet: "distinct std_alphabet"
  by (simp add: std_alphabet_def)

lemma index_of_nth: "distinct xs \<Longrightarrow> n < length xs \<Longrightarrow> index_of (xs ! n) xs = n"
proof (induction xs arbitrary: n)
  case Nil
  then show ?case by simp
next
  case (Cons a xs)
  then show ?case by (cases n) auto
qed

lemma digit_value_digit: "n < 64 \<Longrightarrow> digit_value (digit n) = Some n"
  by (simp add: digit_value_def digit_def index_of_nth distinct_std_alphabet length_std_alphabet)

lemma pad_not_digit: "digit_value (CHR ''='') = None"
  by (simp add: digit_value_def std_alphabet_def)

lemma digit_not_pad: "n < 64 \<Longrightarrow> digit n \<noteq> CHR ''=''"
  using digit_value_digit [of n] pad_not_digit by auto

lemma hi_lo_div: "r < m \<Longrightarrow> (q * m + r) div m = (q::nat)"
  by simp

lemma hi_lo_mod: "r < m \<Longrightarrow> (q * m + r) mod m = (r::nat)"
  by simp

lemma first_digit_bound: "X < 256 \<Longrightarrow> X div 4 < (64::nat)"
  by simp

lemma div16_bound: "Y < 256 \<Longrightarrow> Y div 16 < (16::nat)"
  by simp

lemma div64_bound: "Z < 256 \<Longrightarrow> Z div 64 < (4::nat)"
  by simp

lemma second_digit_bound: "Y < 256 \<Longrightarrow> X mod 4 * 16 + Y div 16 < (64::nat)"
proof -
  assume "Y < 256"
  then have "Y div 16 < 16" by simp
  moreover have "X mod 4 < 4" by simp
  ultimately show ?thesis by linarith
qed

lemma third_digit_bound: "Z < 256 \<Longrightarrow> Y mod 16 * 4 + Z div 64 < (64::nat)"
proof -
  assume "Z < 256"
  then have "Z div 64 < 4" by simp
  moreover have "Y mod 16 < 16" by simp
  ultimately show ?thesis by linarith
qed

lemma second_digit_bound_tail: "X mod 4 * 16 < (64::nat)"
  using second_digit_bound [of 0 X] by simp

lemma third_digit_bound_tail: "Y mod 16 * 4 < (64::nat)"
  using third_digit_bound [of 0 Y] by simp

lemma first_byte_back: "Y < 256 \<Longrightarrow> X div 4 * 4 + (X mod 4 * 16 + Y div 16) div 16 = (X::nat)"
  using hi_lo_div [OF div16_bound, of Y "X mod 4"] by simp

lemma second_byte_back: "Y < 256 \<Longrightarrow> Z < 256 \<Longrightarrow> (X mod 4 * 16 + Y div 16) mod 16 * 16 + (Y mod 16 * 4 + Z div 64) div 4 = (Y::nat)"
  using hi_lo_mod [OF div16_bound, of Y "X mod 4"] hi_lo_div [OF div64_bound, of Z "Y mod 16"] by simp

lemma third_byte_back: "Z < 256 \<Longrightarrow> (Y mod 16 * 4 + Z div 64) mod 4 * 64 + Z mod 64 = (Z::nat)"
  using hi_lo_mod [OF div64_bound, of Z "Y mod 16"] by simp

lemma first_byte_back_tail: "X div 4 * 4 + (X mod 4 * 16) div 16 = (X::nat)"
  using first_byte_back [of 0 X] by simp

lemma second_byte_back_tail: "Y < 256 \<Longrightarrow> (X mod 4 * 16 + Y div 16) mod 16 * 16 + (Y mod 16 * 4) div 4 = (Y::nat)"
  using second_byte_back [of Y 0 X] by simp


lemma decode_four_digits:
  "n1 < 64 \<Longrightarrow> n2 < 64 \<Longrightarrow> n3 < 64 \<Longrightarrow> n4 < 64 \<Longrightarrow>
   std_base64_decode (digit n1 # digit n2 # digit n3 # digit n4 # rest) =
   map_option (\<lambda>bs. [char_of (n1 * 4 + n2 div 16),
                        char_of (n2 mod 16 * 16 + n3 div 4),
                        char_of (n3 mod 4 * 64 + n4)] @ bs) (std_base64_decode rest)"
  by (cases "std_base64_decode rest") (simp_all add: digit_value_digit digit_not_pad)

lemma decode_three_digits:
  "n1 < 64 \<Longrightarrow> n2 < 64 \<Longrightarrow> n3 < 64 \<Longrightarrow>
   std_base64_decode [digit n1, digit n2, digit n3, CHR ''=''] =
   Some [char_of (n1 * 4 + n2 div 16), char_of (n2 mod 16 * 16 + n3 div 4)]"
  by (simp add: digit_value_digit digit_not_pad)

lemma decode_two_digits:
  "n1 < 64 \<Longrightarrow> n2 < 64 \<Longrightarrow>
   std_base64_decode [digit n1, digit n2, CHR ''='', CHR ''=''] =
   Some [char_of (n1 * 4 + n2 div 16)]"
  by (simp add: digit_value_digit)

lemma of_char_less_256: "of_char c < (256::nat)"
  by simp

lemma std_roundtrip: "std_base64_decode (std_base64 xs) = Some xs"
proof (induction xs rule: std_base64.induct)
  case (1 x y z rest)
  have "std_base64_decode (std_base64 (x # y # z # rest)) =
        map_option (\<lambda>bs. [char_of (of_char x :: nat), char_of (of_char y :: nat), char_of (of_char z :: nat)] @ bs)
          (std_base64_decode (std_base64 rest))"
    by (simp only: std_base64.simps append.simps
          decode_four_digits [OF first_digit_bound [OF of_char_less_256] second_digit_bound [OF of_char_less_256] third_digit_bound [OF of_char_less_256] mod_less_divisor [OF zero_less_numeral]]
          first_byte_back [OF of_char_less_256] second_byte_back [OF of_char_less_256 of_char_less_256] third_byte_back [OF of_char_less_256])
  then show ?case
    by (simp add: "1.IH")
next
  case (2 x y)
  have "std_base64_decode (std_base64 [x, y]) = Some [char_of (of_char x :: nat), char_of (of_char y :: nat)]"
    by (simp only: std_base64.simps decode_three_digits [OF first_digit_bound [OF of_char_less_256] second_digit_bound [OF of_char_less_256] third_digit_bound_tail] first_byte_back [OF of_char_less_256] second_byte_back_tail [OF of_char_less_256])
  then show ?case by simp
next
  case (3 x)
  have "std_base64_decode (std_base64 [x]) = Some [char_of (of_char x :: nat)]"
    by (simp only: std_base64.simps decode_two_digits [OF first_digit_bound [OF of_char_less_256] second_digit_bound_tail] first_byte_back_tail)
  then show ?case by simp
next
  case 4
  show ?case by simp
qed

lemma length_std_base64: "length (std_base64 xs) mod 4 = 0"
  by (induction xs rule: std_base64.induct) simp_all

lemma digit_in_alphabet: "n < 64 \<Longrightarrow> digit n \<in> set std_alphabet"
  by (simp add: digit_def length_std_alphabet)

lemma set_std_base64: "set (std_base64 xs) \<subseteq> set std_alphabet \<union> {CHR ''=''}"
  by (induction xs rule: std_base64.induct) (simp_all add: digit_in_alphabet first_digit_bound second_digit_bound third_digit_bound second_digit_bound_tail third_digit_bound_tail)

lemma pad_aligned: "length xs mod 4 = 0 \<Longrightarrow> pad xs = xs"
  by (simp add: pad.simps)

lemma pad_three:
  assumes "length xs mod 4 = 0"
  shows "pad (xs @ [p, q, r]) = xs @ [p, q, r, CHR ''='']"
proof -
  from assms obtain k where k: "length xs = 4 * k"
    by (auto simp add: mod_eq_0_iff_dvd elim: dvdE)
  have n: "length (xs @ [p, q, r]) mod 4 \<noteq> 0"
    using k by simp
  have z: "length (xs @ [p, q, r, CHR ''='']) mod 4 = 0"
    using k by simp
  have "pad (xs @ [p, q, r]) = pad (xs @ [p, q, r, CHR ''=''])"
    using n by (subst pad.simps) simp
  also have "\<dots> = xs @ [p, q, r, CHR ''='']"
    using z by (rule pad_aligned)
  finally show ?thesis .
qed

lemma mod4_two: "Suc (Suc (4 * k)) mod 4 = 2"
proof -
  have "Suc (Suc (4 * k)) = 2 + k * 4"
    by simp
  then have "Suc (Suc (4 * k)) mod 4 = (2 + k * 4) mod 4"
    by (rule arg_cong)
  also have "\<dots> = 2 mod 4"
    by (rule mod_mult_self1)
  finally show ?thesis by simp
qed

lemma pad_two:
  assumes "length xs mod 4 = 0"
  shows "pad (xs @ [p, q]) = xs @ [p, q, CHR ''='', CHR ''='']"
proof -
  from assms obtain k where k: "length xs = 4 * k"
    by (auto simp add: mod_eq_0_iff_dvd elim: dvdE)
  have n: "length (xs @ [p, q]) mod 4 \<noteq> 0"
    using k by (simp add: mod4_two)
  have n': "length (xs @ [p, q, CHR ''='']) mod 4 \<noteq> 0"
    using k by simp
  have z: "length (xs @ [p, q, CHR ''='', CHR ''='']) mod 4 = 0"
    using k by simp
  have "pad (xs @ [p, q]) = pad (xs @ [p, q, CHR ''=''])"
    using n by (subst pad.simps) simp
  also have "\<dots> = pad (xs @ [p, q, CHR ''='', CHR ''=''])"
    using n' by (subst pad.simps) simp
  also have "\<dots> = xs @ [p, q, CHR ''='', CHR ''='']"
    using z by (rule pad_aligned)
  finally show ?thesis .
qed

lemma encode_three_bytes:
  "encode_loop (x # y # z # rest) val (-6) out =
   encode_loop rest (acc (acc (acc val (of_char x)) (of_char y)) (of_char z)) (-6)
     (out @ [digit (of_char x div 4),
             digit (of_char x mod 4 * 16 + of_char y div 16),
             digit (of_char y mod 16 * 4 + of_char z div 64),
             digit (of_char z mod 64)])"
  by (simp add: step_acc emit2 emit4 emit6 first_index second_index third_index fourth_index b_std digit_def)

lemma encode_two_bytes:
  "encode_loop [x, y] val (-6) out =
   (acc (acc val (of_char x)) (of_char y), -2,
    out @ [digit (of_char x div 4), digit (of_char x mod 4 * 16 + of_char y div 16)])"
  by (simp add: step_acc emit2 emit4 first_index second_index b_std digit_def)

lemma encode_one_byte:
  "encode_loop [x] val (-6) out = (acc val (of_char x), -4, out @ [digit (of_char x div 4)])"
  by (simp add: step_acc emit2 first_index b_std digit_def)

lemma encode_refines:
  "length out mod 4 = 0 \<Longrightarrow> finish (encode_loop inp val (-6) out) = out @ std_base64 inp"
proof (induction inp arbitrary: val out rule: std_base64.induct)
  case (1 x y z rest)
  have "length (out @ [digit (of_char x div 4),
             digit (of_char x mod 4 * 16 + of_char y div 16),
             digit (of_char y mod 16 * 4 + of_char z div 64),
             digit (of_char z mod 64)]) mod 4 = 0"
    using "1.prems" by simp
  from "1.IH" [OF this] show ?case
    by (simp only: encode_three_bytes) simp
next
  case (2 x y)
  then show ?case
    by (simp only: encode_two_bytes) (simp add: finish_def tail_index_two_bytes pad_three b_std digit_def)
next
  case (3 x)
  then show ?case
    by (simp only: encode_one_byte) (simp add: finish_def tail_index_one_byte pad_two b_std digit_def)
next
  case 4
  then show ?case
    by (simp add: finish_def pad_aligned)
qed

lemma base64_encode_std: "base64_encode inp = std_base64 inp"
  using encode_refines [of "[]" inp 0] by (simp add: base64_encode_def finish_def split: prod.splits)


text \<open>
  C4. For every input byte string, \<open>base64_encode\<close> returns the standard Base64
  encoding: decoding the result gives the input back, the length of the result is a
  multiple of four, and every character of the result is in the alphabet
  \<open>A-Z a-z 0-9 + /\<close> or is the padding character \<open>=\<close>.
\<close>

theorem base64_encode_standard:
  "base64_encode x = std_base64 x
   \<and> std_base64_decode (base64_encode x) = Some x
   \<and> length (base64_encode x) mod 4 = 0
   \<and> set (base64_encode x) \<subseteq> set std_alphabet \<union> {CHR ''=''}"
  by (simp only: base64_encode_std std_roundtrip length_std_base64 set_std_base64)

text \<open>
  The credentials \<open>user:pass\<close>, as they go into the Authorization header.
\<close>

theorem base64_encode_standard_witness:
  "base64_encode ''user:pass'' = ''dXNlcjpwYXNz''
   \<and> std_base64_decode ''dXNlcjpwYXNz'' = Some ''user:pass''
   \<and> length ''dXNlcjpwYXNz'' mod 4 = 0"
proof -
  have e: "std_base64 ''user:pass'' = ''dXNlcjpwYXNz''"
    by code_simp
  note t = base64_encode_standard [of "''user:pass''"]
  from t have a: "base64_encode ''user:pass'' = ''dXNlcjpwYXNz''"
    by (simp only: e)
  from t have "std_base64_decode (base64_encode ''user:pass'') = Some ''user:pass''"
    by (rule conjunct1 [OF conjunct2])
  then have d: "std_base64_decode ''dXNlcjpwYXNz'' = Some ''user:pass''"
    by (simp only: a)
  have l: "length ''dXNlcjpwYXNz'' mod 4 = 0"
    by simp
  from a d l show ?thesis
    by (intro conjI)
qed

section \<open>Run: the handshake\<close>

text \<open>
  \<open>find\<close> returns a position exactly when the needle occurs somewhere in the string.
\<close>

lemma find_str_None: "find_str hay needle = None \<longleftrightarrow> \<not> sublist needle hay"
  by (induction hay) (auto simp add: sublist_Cons_right)

lemma find_str_sublist: "find_str hay needle \<noteq> None \<longleftrightarrow> sublist needle hay"
  by (simp add: find_str_None)

text \<open>
  Evaluating the model on the concrete client and worlds defined above.
\<close>

lemmas demo_defs =
  demo_client_def demo_world_def connected_client_def connected_world_def streaming_client_def streaming_world_def looping_world_def
  UpdateGGA_def Init_def NtripClient_default_def

lemmas sys_defs =
  sys_socket_def sys_close_def sys_send_def sys_recv_def steady_clock_now_def sleep_for_def
  print_def

lemma Run_connect_demo:
  "Run_connect demo_client (demo_world peer) = Inr (connected_client, connected_world peer)"
  by (simp add: Run_connect_def connected_client_def connected_world_def demo_client_def demo_world_def IsRunning_def UpdateGGA_def Init_def
        NtripClient_default_def stoi_def isspace_def isdigit_def digits_value_def sys_socket_def
        sys_send_def full_request_def Let_def)

lemma Run_demo_resetting:
  "Run demo_client (demo_world resetting_peer) = Some (Inr True, streaming_client, streaming_world resetting_peer)"
  apply (simp add: Run_def Run_connect_demo Run_handshake_def)
  apply (subst handshake_poll.simps)
  apply (simp add: socket_timeout_def poll_attempt_def sys_recv_def demo_world_def resetting_peer_def
      connected_client_def connected_world_def demo_client_def UpdateGGA_def Init_def NtripClient_default_def sys_send_def print_def Run_finish_def
      streaming_client_def streaming_world_def)
  done

subsection \<open>A peer that never answers\<close>

text \<open>
  When every \<open>recv\<close> from now on returns a negative value, each pass through the
  loop falls through to the sleep with \<open>timeout\<close> unchanged, so the loop cannot
  return: any result it had would be the result of the next pass as well.
\<close>

lemma poll_attempt_negative:
  "ret_of (recv_ret w (recvs w)) < 0 \<Longrightarrow>
   poll_attempt c w =
     Poll_continue c (print (Msg_ret (ret_of (recv_ret w (recvs w)))) (w\<lparr>recvs := Suc (recvs w)\<rparr>))"
  by (simp add: poll_attempt_def sys_recv_def)

lemma handshake_poll_never_returns:
  "handshake_poll t c w = Some r \<Longrightarrow>
   t < socket_timeout \<longrightarrow> (\<forall>n\<ge>recvs w. ret_of (recv_ret w n) < 0) \<longrightarrow> False"
proof (rule handshake_poll.raw_induct
    [where P = "\<lambda>t c w r. t < socket_timeout \<longrightarrow> (\<forall>n\<ge>recvs w. ret_of (recv_ret w n) < 0) \<longrightarrow> False"])
  fix poll t c w r
  assume IH: "\<And>t c w r. poll t c w = Some r \<Longrightarrow>
            t < socket_timeout \<longrightarrow> (\<forall>n\<ge>recvs w. ret_of (recv_ret w n) < 0) \<longrightarrow> False"
    and step: "(if t < socket_timeout then
        (case poll_attempt c w of
           Poll_return r c' w' \<Rightarrow> Some (Loop_returned r c' w')
         | Poll_break c' w' \<Rightarrow> Some (Loop_left t c' w')
         | Poll_continue c' w' \<Rightarrow> poll t c' (sleep_for 100 w'))
      else Some (Loop_left t c w)) = Some r"
  show "t < socket_timeout \<longrightarrow> (\<forall>n\<ge>recvs w. ret_of (recv_ret w n) < 0) \<longrightarrow> False"
  proof (intro impI)
    assume t: "t < socket_timeout" and silent: "\<forall>n\<ge>recvs w. ret_of (recv_ret w n) < 0"
    let ?w' = "sleep_for 100 (print (Msg_ret (ret_of (recv_ret w (recvs w)))) (w\<lparr>recvs := Suc (recvs w)\<rparr>))"
    from silent have neg: "ret_of (recv_ret w (recvs w)) < 0"
      by simp
    from step t have "poll t c ?w' = Some r"
      by (simp add: poll_attempt_negative [OF neg])
    moreover have "\<forall>n\<ge>recvs ?w'. ret_of (recv_ret ?w' n) < 0"
      using silent by (simp add: sleep_for_def print_def)
    ultimately show False
      using IH t by blast
  qed
qed

text \<open>
  C1. The specification says that Run returns failure, with the socket closed, once the
  retry budget of about fifty attempts is used up without a success response. On the
  code this fails: against a peer that sends nothing, Run does not return at all.
\<close>

theorem Run_silent_peer_never_returns:
  "Run demo_client (demo_world silent_peer) = None"
proof (cases "Run demo_client (demo_world silent_peer)")
  case None
  then show ?thesis .
next
  case (Some res)
  from Some obtain r where "handshake_poll 0 connected_client (connected_world silent_peer) = Some r"
    by (auto simp add: Run_def Run_connect_demo Run_handshake_def split: option.splits)
  from handshake_poll_never_returns [OF this] have False
    by (simp add: socket_timeout_def connected_world_def demo_world_def silent_peer_def)
  then show ?thesis ..
qed

subsection \<open>One pass through the polling loop\<close>

lemma Run_handshake_unfold:
  "Run_handshake c w =
     (case poll_attempt c w of
        Poll_return r c' w' \<Rightarrow> Some (Inr r, c', w')
      | Poll_break c' w' \<Rightarrow> Some (Run_finish 0 c' w')
      | Poll_continue c' w' \<Rightarrow> Run_handshake c' (sleep_for 100 w'))"
  unfolding Run_handshake_def
  by (subst handshake_poll.simps) (simp add: socket_timeout_def split: poll_step.splits)

text \<open>
  C5. A received non-empty chunk is treated as success exactly when it contains
  \<open>HTTP/1.1 200 OK\<close> or \<open>ICY 200 OK\<close> somewhere: then the authenticated flag is
  set, the loop is left and Run comes to an end with the flag set. Any other non-empty
  chunk is logged and leaves the object as it was; Run then sleeps 100 ms and makes the
  next attempt, a new receive, and what that attempt does is what Run does: its
  \<open>return\<close> is the result of Run, its \<open>break\<close> takes Run to the code after the loop,
  and otherwise Run goes on polling.
\<close>

theorem handshake_success_detection:
  assumes "recv_ret w (recvs w) = Received r" and "r \<noteq> []"
  shows "if sublist ''HTTP/1.1 200 OK'' r \<or> sublist ''ICY 200 OK'' r
         then (\<exists>w'. poll_attempt c w = Poll_break (c\<lparr>authenticated := True\<rparr>) w'
                 \<or> poll_attempt c w = Poll_return False (c\<lparr>authenticated := True\<rparr>) w')
            \<and> (\<exists>res c' w'. Run_handshake c w = Some (res, c', w') \<and> authenticated c')
         else poll_attempt c w =
                Poll_continue c (print (Err_request_result r) (w\<lparr>recvs := Suc (recvs w)\<rparr>))
              \<and> Run_handshake c w =
                (case poll_attempt c
                        (sleep_for 100 (print (Err_request_result r) (w\<lparr>recvs := Suc (recvs w)\<rparr>))) of
                   Poll_return ok c' w' \<Rightarrow> Some (Inr ok, c', w')
                 | Poll_break c' w' \<Rightarrow> Some (Run_finish 0 c' w')
                 | Poll_continue c' w' \<Rightarrow> Run_handshake c' (sleep_for 100 w'))"
proof (cases "sublist ''HTTP/1.1 200 OK'' r \<or> sublist ''ICY 200 OK'' r")
  case True
  then have f: "find_str r ''HTTP/1.1 200 OK'' \<noteq> None \<or> find_str r ''ICY 200 OK'' \<noteq> None"
    by (simp only: find_str_sublist)
  with assms have att: "\<exists>w'. poll_attempt c w = Poll_break (c\<lparr>authenticated := True\<rparr>) w'
                 \<or> poll_attempt c w = Poll_return False (c\<lparr>authenticated := True\<rparr>) w'"
    by (auto simp add: poll_attempt_def sys_recv_def Let_def split: prod.splits)
  then obtain w' where "poll_attempt c w = Poll_break (c\<lparr>authenticated := True\<rparr>) w'
                 \<or> poll_attempt c w = Poll_return False (c\<lparr>authenticated := True\<rparr>) w'"
    by blast
  then have "\<exists>res c' w'. Run_handshake c w = Some (res, c', w') \<and> authenticated c'"
  proof
    assume "poll_attempt c w = Poll_break (c\<lparr>authenticated := True\<rparr>) w'"
    then have "Run_handshake c w = Some (Run_finish 0 (c\<lparr>authenticated := True\<rparr>) w')"
      by (subst Run_handshake_unfold) simp
    moreover have "authenticated (fst (snd (Run_finish 0 (c\<lparr>authenticated := True\<rparr>) w')))"
      by (cases "thread c") (simp_all add: Run_finish_def socket_timeout_def)
    ultimately show ?thesis
      by (metis prod.collapse)
  next
    assume "poll_attempt c w = Poll_return False (c\<lparr>authenticated := True\<rparr>) w'"
    then have "Run_handshake c w = Some (Inr False, c\<lparr>authenticated := True\<rparr>, w')"
      by (subst Run_handshake_unfold) simp
    then show ?thesis
      by simp
  qed
  with att True show ?thesis
    by simp
next
  case False
  then have nf: "\<not> (find_str r ''HTTP/1.1 200 OK'' \<noteq> None \<or> find_str r ''ICY 200 OK'' \<noteq> None)"
    by (simp add: find_str_None)
  with assms have att: "poll_attempt c w =
      Poll_continue c (print (Err_request_result r) (w\<lparr>recvs := Suc (recvs w)\<rparr>))"
    by (simp add: poll_attempt_def sys_recv_def Let_def)
  let ?w = "sleep_for 100 (print (Err_request_result r) (w\<lparr>recvs := Suc (recvs w)\<rparr>))"
  have "Run_handshake c w = Run_handshake c ?w"
    by (subst Run_handshake_unfold) (simp add: att)
  also have "\<dots> = (case poll_attempt c ?w of
                   Poll_return ok c' w' \<Rightarrow> Some (Inr ok, c', w')
                 | Poll_break c' w' \<Rightarrow> Some (Run_finish 0 c' w')
                 | Poll_continue c' w' \<Rightarrow> Run_handshake c' (sleep_for 100 w'))"
    by (rule Run_handshake_unfold)
  finally show ?thesis
    using False att by simp
qed

text \<open>
  The peer that answers \<open>ICY 200 OK\<close> to the request of the demo client, and the
  one that answers \<open>HTTP/1.1 100 Continue\<close> first and \<open>ICY 200 OK\<close> to the next
  receive: against it Run returns true after two receives and one sleep, with the first
  chunk logged.
\<close>

theorem handshake_success_detection_witness:
  "recv_ret (connected_world resetting_peer) (recvs (connected_world resetting_peer))
     = Received ''ICY 200 OK''
   \<and> ''ICY 200 OK'' \<noteq> []
   \<and> sublist ''ICY 200 OK'' ''ICY 200 OK''
   \<and> (\<exists>w'. poll_attempt connected_client (connected_world resetting_peer)
               = Poll_break (connected_client\<lparr>authenticated := True\<rparr>) w'
          \<or> poll_attempt connected_client (connected_world resetting_peer)
               = Poll_return False (connected_client\<lparr>authenticated := True\<rparr>) w')
   \<and> (\<exists>res c' w'. Run_handshake connected_client (connected_world resetting_peer)
                       = Some (res, c', w') \<and> authenticated c')
   \<and> recv_ret (connected_world interim_peer) (recvs (connected_world interim_peer))
     = Received ''HTTP/1.1 100 Continue''
   \<and> ''HTTP/1.1 100 Continue'' \<noteq> []
   \<and> \<not> (sublist ''HTTP/1.1 200 OK'' ''HTTP/1.1 100 Continue''
          \<or> sublist ''ICY 200 OK'' ''HTTP/1.1 100 Continue'')
   \<and> poll_attempt connected_client (connected_world interim_peer) =
       Poll_continue connected_client
         (print (Err_request_result ''HTTP/1.1 100 Continue'')
            ((connected_world interim_peer)
               \<lparr>recvs := Suc (recvs (connected_world interim_peer))\<rparr>))
   \<and> Run_handshake connected_client (connected_world interim_peer) =
       Some (Inr True,
             connected_client\<lparr>authenticated := True, running := True, thread := Joinable\<rparr>,
             (connected_world interim_peer)
               \<lparr>recvs := 2, slept_ms := 100,
                sent := [(3, full_request demo_client), (3, ''$GPGGA,1'')],
                console := [Err_request_result ''HTTP/1.1 100 Continue'', Msg_gga_sent],
                worker := Worker_spawned\<rparr>)"
proof -
  have r: "recv_ret (connected_world resetting_peer) (recvs (connected_world resetting_peer))
     = Received ''ICY 200 OK''"
    by (simp add: connected_world_def demo_world_def resetting_peer_def)
  have ne: "''ICY 200 OK'' \<noteq> []"
    by simp
  have r': "recv_ret (connected_world interim_peer) (recvs (connected_world interim_peer))
     = Received ''HTTP/1.1 100 Continue''"
    by (simp add: connected_world_def demo_world_def interim_peer_def)
  have ne': "''HTTP/1.1 100 Continue'' \<noteq> []"
    by simp
  have "find_str ''HTTP/1.1 100 Continue'' ''HTTP/1.1 200 OK'' = None"
    and "find_str ''HTTP/1.1 100 Continue'' ''ICY 200 OK'' = None"
    by simp_all
  then have no: "\<not> (sublist ''HTTP/1.1 200 OK'' ''HTTP/1.1 100 Continue''
          \<or> sublist ''ICY 200 OK'' ''HTTP/1.1 100 Continue'')"
    by (simp only: find_str_None) simp
  have nxt: "poll_attempt connected_client
       (sleep_for 100 (print (Err_request_result ''HTTP/1.1 100 Continue'')
            ((connected_world interim_peer)
               \<lparr>recvs := Suc (recvs (connected_world interim_peer))\<rparr>))) =
     Poll_break (connected_client\<lparr>authenticated := True\<rparr>)
       ((connected_world interim_peer)
               \<lparr>recvs := 2, slept_ms := 100,
                sent := [(3, full_request demo_client), (3, ''$GPGGA,1'')],
                console := [Err_request_result ''HTTP/1.1 100 Continue'', Msg_gga_sent]\<rparr>)"
    by (simp add: poll_attempt_def interim_peer_def demo_defs sys_defs)
  from handshake_success_detection [OF r ne, of connected_client]
    handshake_success_detection [OF r' ne', of connected_client] r r' no
  show ?thesis
    by (simp add: nxt Run_finish_def socket_timeout_def) (simp add: demo_defs)
qed

text \<open>
  C8. When a receive of the polling loop returns zero bytes, Run returns false at once:
  the socket is closed, no further attempt is made and no time is slept.
\<close>

theorem handshake_zero_bytes_fails_at_once:
  assumes "ret_of (recv_ret w (recvs w)) = 0"
  shows "Run_handshake c w =
           Some (Inr False, c,
                 sys_close (sockfd c) (print Err_remote_closed (w\<lparr>recvs := Suc (recvs w)\<rparr>)))
         \<and> sockfd c \<notin> open_fds
               (sys_close (sockfd c) (print Err_remote_closed (w\<lparr>recvs := Suc (recvs w)\<rparr>)))
         \<and> slept_ms
               (sys_close (sockfd c) (print Err_remote_closed (w\<lparr>recvs := Suc (recvs w)\<rparr>)))
             = slept_ms w"
proof -
  from assms have "poll_attempt c w =
      Poll_return False c (sys_close (sockfd c) (print Err_remote_closed (w\<lparr>recvs := Suc (recvs w)\<rparr>)))"
    by (simp add: poll_attempt_def sys_recv_def)
  then show ?thesis
    by (subst Run_handshake_unfold) (simp add: sys_close_def print_def)
qed

text \<open>
  The peer that closes the connection right after accepting it.
\<close>

theorem handshake_zero_bytes_fails_at_once_witness:
  "ret_of (recv_ret (connected_world closing_peer) (recvs (connected_world closing_peer))) = 0
   \<and> Run_handshake connected_client (connected_world closing_peer) =
       Some (Inr False, connected_client,
             (connected_world closing_peer)
               \<lparr>recvs := 1, console := [Err_remote_closed], open_fds := {}\<rparr>)
   \<and> Run demo_client (demo_world closing_peer) =
       Some (Inr False, connected_client,
             (connected_world closing_peer)
               \<lparr>recvs := 1, console := [Err_remote_closed], open_fds := {}\<rparr>)
   \<and> slept_ms ((connected_world closing_peer)
               \<lparr>recvs := 1, console := [Err_remote_closed], open_fds := {}\<rparr>) = 0"
proof -
  have z: "ret_of (recv_ret (connected_world closing_peer) (recvs (connected_world closing_peer))) = 0"
    by (simp add: connected_world_def demo_world_def closing_peer_def)
  from handshake_zero_bytes_fails_at_once [OF z, of connected_client] z show ?thesis
    by (simp add: Run_def Run_connect_demo)
       (simp add: connected_world_def demo_world_def connected_client_def sys_close_def print_def)
qed

text \<open>
  C9. When a chunk with a success response arrives, Run sets the authenticated flag.
  With a position report stored it sends the report; if that send returns zero or less,
  Run closes the socket and returns false, otherwise it sets the running flag, starts the
  thread and returns true. With no report stored nothing is sent, and Run sets the running
  flag, starts the thread and returns true.
\<close>

theorem handshake_success_sends_report:
  assumes "recv_ret w (recvs w) = Received r" and "r \<noteq> []"
    and "sublist ''HTTP/1.1 200 OK'' r \<or> sublist ''ICY 200 OK'' r"
    and "thread c = Not_joinable"
  shows "Run_handshake c w =
     (if gga_buffer c = [] then
        Some (Inr True,
              c\<lparr>authenticated := True, running := True, thread := Joinable\<rparr>,
              (print Msg_gga_empty (w\<lparr>recvs := Suc (recvs w)\<rparr>))\<lparr>worker := Worker_spawned\<rparr>)
      else if send_ret w (length (sent w)) \<le> 0 then
        Some (Inr False,
              c\<lparr>authenticated := True\<rparr>,
              sys_close (sockfd c)
                (print Err_send_gga
                   (w\<lparr>recvs := Suc (recvs w), sent := sent w @ [(sockfd c, gga_buffer c)]\<rparr>)))
      else
        Some (Inr True,
              c\<lparr>authenticated := True, running := True, thread := Joinable\<rparr>,
              (print Msg_gga_sent
                 (w\<lparr>recvs := Suc (recvs w), sent := sent w @ [(sockfd c, gga_buffer c)]\<rparr>))
                \<lparr>worker := Worker_spawned\<rparr>))"
proof -
  from assms(3) have "find_str r ''HTTP/1.1 200 OK'' \<noteq> None \<or> find_str r ''ICY 200 OK'' \<noteq> None"
    by (simp only: find_str_sublist)
  with assms(1,2,4) show ?thesis
    by (subst Run_handshake_unfold)
       (auto simp add: poll_attempt_def sys_recv_def sys_send_def Let_def Run_finish_def
          socket_timeout_def)
qed

text \<open>
  The demo client has a report stored and the send succeeds.
\<close>

theorem handshake_success_sends_report_witness:
  "recv_ret (connected_world resetting_peer) (recvs (connected_world resetting_peer))
     = Received ''ICY 200 OK''
   \<and> ''ICY 200 OK'' \<noteq> []
   \<and> (sublist ''HTTP/1.1 200 OK'' ''ICY 200 OK'' \<or> sublist ''ICY 200 OK'' ''ICY 200 OK'')
   \<and> thread connected_client = Not_joinable
   \<and> gga_buffer connected_client = ''$GPGGA,1''
   \<and> Run_handshake connected_client (connected_world resetting_peer) =
       Some (Inr True,
             connected_client\<lparr>authenticated := True, running := True, thread := Joinable\<rparr>,
             (connected_world resetting_peer)
               \<lparr>recvs := 1, sent := [(3, full_request demo_client), (3, ''$GPGGA,1'')],
                console := [Msg_gga_sent], worker := Worker_spawned\<rparr>)"
proof -
  have r: "recv_ret (connected_world resetting_peer) (recvs (connected_world resetting_peer))
     = Received ''ICY 200 OK''"
    by (simp add: connected_world_def demo_world_def resetting_peer_def)
  have ne: "''ICY 200 OK'' \<noteq> []"
    by simp
  have sub: "sublist ''HTTP/1.1 200 OK'' ''ICY 200 OK'' \<or> sublist ''ICY 200 OK'' ''ICY 200 OK''"
    by simp
  have th: "thread connected_client = Not_joinable"
    by (simp add: demo_defs)
  from handshake_success_sends_report [OF r ne sub th] r sub th show ?thesis
    by (simp add: demo_defs print_def)
qed

section \<open>Stop\<close>

text \<open>
  C10. Stop on a client that is not running does nothing: the object and the world,
  with its open descriptors and its worker thread, are returned unchanged.
\<close>

theorem Stop_when_not_running:
  "\<not> IsRunning c \<Longrightarrow> Stop c w = (Inr (), c, w)"
  by (simp add: Stop_def IsRunning_def)

text \<open>
  The demo client before any Run.
\<close>

theorem Stop_when_not_running_witness:
  "\<not> IsRunning demo_client
   \<and> Stop demo_client (demo_world silent_peer) = (Inr (), demo_client, demo_world silent_peer)"
proof -
  have n: "\<not> IsRunning demo_client"
    by (simp add: IsRunning_def demo_defs)
  from Stop_when_not_running [OF n] n show ?thesis
    by simp
qed

section \<open>ThreadHandler: the streaming loop\<close>

text \<open>
  What the two halves of the loop body and the body as a whole do to the descriptor and
  to the running flag, on the path that goes on and on the path that returns.
\<close>

lemma ThreadHandler_report_Inr:
  "ThreadHandler_report c w st = Inr (c2, w2, st') \<Longrightarrow> c2 = c \<and> open_fds w2 = open_fds w"
  by (auto simp add: ThreadHandler_report_def steady_clock_now_def sys_send_def Let_def
      split: if_splits prod.splits)

lemma ThreadHandler_report_Inl:
  "ThreadHandler_report c w st = Inl (r, c', w') \<Longrightarrow>
   r = False \<and> running c' = running c
   \<and> (0 < sockfd c \<longrightarrow> sockfd c' = -1 \<and> sockfd c \<notin> open_fds w')"
  by (auto simp add: ThreadHandler_report_def steady_clock_now_def sys_send_def Let_def Cleanup_def
      sys_close_def print_def split: if_splits prod.splits)

lemma ThreadHandler_recv_Inr:
  "ThreadHandler_recv c w = Inr (c1, w1) \<Longrightarrow> c1 = c \<and> open_fds w1 = open_fds w"
  by (auto simp add: ThreadHandler_recv_def sys_recv_def Let_def print_def
      split: if_splits prod.splits)

lemma ThreadHandler_recv_Inl:
  "ThreadHandler_recv c w = Inl (r, c', w') \<Longrightarrow>
   r = False \<and> running c' = running c
   \<and> (0 < sockfd c \<longrightarrow> sockfd c' = -1 \<and> sockfd c \<notin> open_fds w')"
  by (auto simp add: ThreadHandler_recv_def sys_recv_def Let_def Cleanup_def
      sys_close_def print_def split: if_splits prod.splits)

lemma ThreadHandler_body_Inl:
  assumes "ThreadHandler_body c w st = Inl (r, c', w')"
  shows "r = False \<and> running c' = running c
   \<and> (0 < sockfd c \<longrightarrow> sockfd c' = -1 \<and> sockfd c \<notin> open_fds w')"
proof (cases "ThreadHandler_recv c w")
  case (Inl a)
  with assms have "ThreadHandler_recv c w = Inl (r, c', w')"
    by (simp add: ThreadHandler_body_def)
  then show ?thesis
    by (rule ThreadHandler_recv_Inl)
next
  case (Inr p)
  obtain c1 w1 where p: "p = (c1, w1)"
    by (cases p)
  from Inr p have c1: "c1 = c" and fds: "open_fds w1 = open_fds w"
    using ThreadHandler_recv_Inr [of c w c1 w1] by simp_all
  from assms Inr p have "ThreadHandler_report c1 w1 st = Inl (r, c', w')"
    by (simp add: ThreadHandler_body_def split: sum.splits prod.splits)
  from ThreadHandler_report_Inl [OF this] c1 show ?thesis
    by simp
qed

text \<open>
  An iteration ends in a return exactly when one of the two fatal errors occurs.
\<close>

lemma ThreadHandler_recv_Inl_iff:
  "(\<exists>r c' w'. ThreadHandler_recv c w = Inl (r, c', w')) \<longleftrightarrow> recv_fails_fatally w"
  by (cases "recv_ret w (recvs w)")
     (auto simp add: ThreadHandler_recv_def recv_fails_fatally_def sys_recv_def Let_def
        split: prod.splits)

lemma ThreadHandler_report_Inl_iff:
  "(\<exists>r c' w'. ThreadHandler_report c w st = Inl (r, c', w')) \<longleftrightarrow> report_send_fails c w st"
  by (auto simp add: ThreadHandler_report_def report_send_fails_def steady_clock_now_def
      sys_send_def Let_def split: prod.splits)

lemma ThreadHandler_recv_keeps:
  assumes "ThreadHandler_recv c w = Inr (c1, w1)"
  shows "c1 = c \<and> report_send_fails c1 w1 st = report_send_fails c w st"
  using assms
  by (auto simp add: ThreadHandler_recv_def report_send_fails_def sys_recv_def print_def Let_def
      split: if_splits)

lemma ThreadHandler_body_Inl_iff:
  "(\<exists>r c' w'. ThreadHandler_body c w st = Inl (r, c', w')) \<longleftrightarrow>
     recv_fails_fatally w \<or> report_send_fails c w st"
proof (cases "ThreadHandler_recv c w")
  case (Inl a)
  obtain r c' w' where a: "a = (r, c', w')"
    by (cases a)
  with Inl have "recv_fails_fatally w"
    using ThreadHandler_recv_Inl_iff [of c w] by blast
  with Inl a show ?thesis
    by (simp add: ThreadHandler_body_def)
next
  case (Inr p)
  obtain c1 w1 where p: "p = (c1, w1)"
    by (cases p)
  from Inr have nf: "\<not> recv_fails_fatally w"
    using ThreadHandler_recv_Inl_iff [of c w] by auto
  from Inr p have "ThreadHandler_recv c w = Inr (c1, w1)"
    by simp
  from ThreadHandler_recv_keeps [OF this, of st]
  have k: "report_send_fails c1 w1 st = report_send_fails c w st"
    by blast
  have "(\<exists>r c' w'. ThreadHandler_body c w st = Inl (r, c', w'))
      \<longleftrightarrow> (\<exists>r c' w'. ThreadHandler_report c1 w1 st = Inl (r, c', w'))"
    using Inr p by (auto simp add: ThreadHandler_body_def split: sum.splits)
  also have "\<dots> \<longleftrightarrow> report_send_fails c1 w1 st"
    by (rule ThreadHandler_report_Inl_iff)
  finally show ?thesis
    using nf k by simp
qed

text \<open>
  Without a fatal error the iteration ends with the sleep: the object and the open
  descriptors are as before, and the worker is back at the head of its loop.
\<close>

lemma ThreadHandler_body_continues:
  assumes "ThreadHandler_body c w st = Inr (c', w', st')"
  shows "c' = c \<and> open_fds w' = open_fds w"
proof -
  from assms obtain c1 w1 where r: "ThreadHandler_recv c w = Inr (c1, w1)"
    by (auto simp add: ThreadHandler_body_def split: sum.splits)
  with assms obtain w2 where p: "ThreadHandler_report c1 w1 st = Inr (c', w2, st')"
    and w': "w' = sleep_for 10 w2"
    by (auto simp add: ThreadHandler_body_def split: sum.splits)
  from ThreadHandler_recv_Inr [OF r] ThreadHandler_report_Inr [OF p] w' show ?thesis
    by (simp add: sleep_for_def)
qed

lemma ThreadHandler_body_goes_on:
  assumes "\<not> recv_fails_fatally w" and "\<not> report_send_fails c w st"
  shows "\<exists>w' st'. ThreadHandler_body c w st = Inr (c, w', st') \<and> open_fds w' = open_fds w
     \<and> (worker w = Worker_loop st \<and> running c \<longrightarrow>
          worker_turn c w = (c, w'\<lparr>worker := Worker_loop st'\<rparr>))"
proof (cases "ThreadHandler_body c w st")
  case (Inl a)
  obtain r c' w' where "a = (r, c', w')"
    by (cases a)
  with Inl assms ThreadHandler_body_Inl_iff [of c w st] show ?thesis
    by blast
next
  case (Inr p)
  obtain c' w' st' where p: "p = (c', w', st')"
    by (cases p)
  with Inr have b: "ThreadHandler_body c w st = Inr (c', w', st')"
    by simp
  from ThreadHandler_body_continues [OF b] have "c' = c" and "open_fds w' = open_fds w"
    by simp_all
  with b show ?thesis
    by (auto simp add: worker_turn_def)
qed

text \<open>
  The worker of the demo client: its first turn, and its second turn against each peer.
\<close>

lemma worker_entry_streaming:
  "worker_turn streaming_client (streaming_world peer) = (streaming_client, looping_world peer)"
  by (simp add: worker_turn_def ThreadHandler_entry_def demo_defs sys_defs)

lemma looping_world_worker: "worker (looping_world peer) = Worker_loop 0"
  by (simp add: looping_world_def)

lemma streaming_client_running: "running streaming_client"
  by (simp add: streaming_client_def)

lemma body_resetting:
  "ThreadHandler_body streaming_client (looping_world resetting_peer) 0 =
     Inl (False, streaming_client\<lparr>sockfd := -1\<rparr>,
          (looping_world resetting_peer)
            \<lparr>recvs := 2, open_fds := {},
             console := [Msg_gga_sent, Msg_service_running, Err_remote_socket 104]\<rparr>)"
  by (simp add: ThreadHandler_body_def ThreadHandler_recv_def Cleanup_def resetting_peer_def
      EAGAIN_def EWOULDBLOCK_def EINTR_def demo_defs sys_defs)

lemma turn_resetting:
  "worker_turn streaming_client (looping_world resetting_peer) =
     (streaming_client\<lparr>sockfd := -1\<rparr>,
      (looping_world resetting_peer)
        \<lparr>recvs := 2, open_fds := {},
         console := [Msg_gga_sent, Msg_service_running, Err_remote_socket 104],
         worker := Worker_done False\<rparr>)"
  by (simp add: worker_turn_def looping_world_worker streaming_client_running body_resetting)

lemma body_closing:
  "ThreadHandler_body streaming_client (looping_world closing_peer) 0 =
     Inr (streaming_client,
          (looping_world closing_peer)
            \<lparr>recvs := 2, clock_reads := 2, slept_ms := 10,
             console := [Msg_gga_sent, Msg_service_running, Msg_remote_closed]\<rparr>, 0)"
  by (simp add: ThreadHandler_body_def ThreadHandler_recv_def ThreadHandler_report_def
      elapsed_ms_def reporting_interval_ms_def closing_peer_def demo_defs sys_defs)


lemma report_not_due:
  "\<not> report_send_fails streaming_client (looping_world peer) 0"
  by (simp add: report_send_fails_def elapsed_ms_def reporting_interval_ms_def demo_defs)

text \<open>
  C7. A receive of the streaming loop that returns zero bytes is logged and nothing else:
  the receive branch neither closes the socket nor returns. Unless the position report
  is due in the same iteration and fails to send, the iteration ends with the object and
  the open descriptors as they were and the worker back at the head of the loop.
\<close>

theorem streaming_zero_bytes_not_fatal:
  assumes "ret_of (recv_ret w (recvs w)) = 0"
  shows "ThreadHandler_recv c w = Inr (c, print Msg_remote_closed (w\<lparr>recvs := Suc (recvs w)\<rparr>))
     \<and> (\<not> report_send_fails c w st \<longrightarrow>
          (\<exists>w' st'. ThreadHandler_body c w st = Inr (c, w', st')
             \<and> open_fds w' = open_fds w
             \<and> (worker w = Worker_loop st \<and> running c \<longrightarrow>
                  worker_turn c w = (c, w'\<lparr>worker := Worker_loop st'\<rparr>))))"
proof -
  from assms have rcv: "ThreadHandler_recv c w =
      Inr (c, print Msg_remote_closed (w\<lparr>recvs := Suc (recvs w)\<rparr>))"
    by (simp add: ThreadHandler_recv_def sys_recv_def)
  then have "\<not> recv_fails_fatally w"
    using ThreadHandler_recv_Inl_iff [of c w] by auto
  with rcv ThreadHandler_body_goes_on [of w c st] show ?thesis
    by blast
qed

text \<open>
  The worker of the demo client, against the peer that has closed the connection.
\<close>

theorem streaming_zero_bytes_not_fatal_witness:
  "ret_of (recv_ret (looping_world closing_peer) (recvs (looping_world closing_peer))) = 0
   \<and> \<not> report_send_fails streaming_client (looping_world closing_peer) 0
   \<and> worker (looping_world closing_peer) = Worker_loop 0
   \<and> running streaming_client
   \<and> ThreadHandler_recv streaming_client (looping_world closing_peer) =
       Inr (streaming_client,
            print Msg_remote_closed
              ((looping_world closing_peer)\<lparr>recvs := Suc (recvs (looping_world closing_peer))\<rparr>))
   \<and> ThreadHandler_body streaming_client (looping_world closing_peer) 0 =
       Inr (streaming_client,
            (looping_world closing_peer)
              \<lparr>recvs := 2, clock_reads := 2, slept_ms := 10,
               console := [Msg_gga_sent, Msg_service_running, Msg_remote_closed]\<rparr>, 0)
   \<and> worker_turn streaming_client (looping_world closing_peer) =
       (streaming_client,
        (looping_world closing_peer)
          \<lparr>recvs := 2, clock_reads := 2, slept_ms := 10,
           console := [Msg_gga_sent, Msg_service_running, Msg_remote_closed],
           worker := Worker_loop 0\<rparr>)"
proof -
  have z: "ret_of (recv_ret (looping_world closing_peer) (recvs (looping_world closing_peer))) = 0"
    by (simp add: looping_world_def streaming_world_def demo_world_def closing_peer_def)
  note t = streaming_zero_bytes_not_fatal [OF z, of streaming_client 0]
  from t have rcv: "ThreadHandler_recv streaming_client (looping_world closing_peer) =
       Inr (streaming_client,
            print Msg_remote_closed
              ((looping_world closing_peer)\<lparr>recvs := Suc (recvs (looping_world closing_peer))\<rparr>))"
    by (rule conjunct1)
  from t report_not_due looping_world_worker streaming_client_running
  obtain w' st' where
    "ThreadHandler_body streaming_client (looping_world closing_peer) 0 = Inr (streaming_client, w', st')"
    and "worker_turn streaming_client (looping_world closing_peer) =
       (streaming_client, w'\<lparr>worker := Worker_loop st'\<rparr>)"
    by blast
  with z rcv report_not_due looping_world_worker streaming_client_running show ?thesis
    by (simp add: body_closing)
qed



text \<open>
  C2, as the specification states it, says that after a fatal error in the streaming loop
  the client is stopped and IsRunning returns false. It fails: the demo client runs, its
  worker meets a reset connection and ThreadHandler returns false, and IsRunning is still
  true.
\<close>

theorem IsRunning_after_fatal_error:
  "Run demo_client (demo_world resetting_peer)
     = Some (Inr True, streaming_client, streaming_world resetting_peer)
   \<and> worker (snd (worker_turns (Suc (Suc 0)) (streaming_client, streaming_world resetting_peer)))
     = Worker_done False
   \<and> IsRunning (fst (worker_turns (Suc (Suc 0)) (streaming_client, streaming_world resetting_peer)))"
  by (simp add: Run_demo_resetting worker_entry_streaming turn_resetting IsRunning_def
      streaming_client_running)

text \<open>
  C2, amended. On every fatal I/O error of the streaming loop, a receive error that is
  not absorbed or a failed send of the position report, ThreadHandler returns false after
  calling Cleanup: when the descriptor is positive it has been closed and the handle is
  -1. The running flag is not touched, so IsRunning goes on returning true; and the
  thread is over, so nothing reconnects until Run is called again.
\<close>

theorem fatal_io_error_leaves_running_set:
  assumes "worker w = Worker_loop st" and "running c"
    and "recv_fails_fatally w \<or> report_send_fails c w st"
  shows "worker (snd (worker_turn c w)) = Worker_done False
     \<and> IsRunning (fst (worker_turn c w))
     \<and> (0 < sockfd c \<longrightarrow>
          sockfd (fst (worker_turn c w)) = -1 \<and> sockfd c \<notin> open_fds (snd (worker_turn c w)))
     \<and> worker_turn (fst (worker_turn c w)) (snd (worker_turn c w)) = worker_turn c w"
proof -
  from assms(3) obtain r c' w' where body: "ThreadHandler_body c w st = Inl (r, c', w')"
    using ThreadHandler_body_Inl_iff [of c w st] by blast
  from ThreadHandler_body_Inl [OF body]
  have "r = False" and "running c' = running c"
    and "0 < sockfd c \<longrightarrow> sockfd c' = -1 \<and> sockfd c \<notin> open_fds w'"
    by simp_all
  moreover from assms(1,2) body
  have "worker_turn c w = (c', w'\<lparr>worker := Worker_done r\<rparr>)"
    by (simp add: worker_turn_def)
  moreover have "worker_turn c' (w'\<lparr>worker := Worker_done r\<rparr>) = (c', w'\<lparr>worker := Worker_done r\<rparr>)"
    by (simp add: worker_turn_def)
  ultimately show ?thesis
    using assms(2) by (simp add: IsRunning_def)
qed

text \<open>
  The worker of the demo client when the peer resets the connection.
\<close>

theorem fatal_io_error_leaves_running_set_witness:
  "worker (looping_world resetting_peer) = Worker_loop 0
   \<and> running streaming_client
   \<and> recv_fails_fatally (looping_world resetting_peer)
   \<and> worker (snd (worker_turn streaming_client (looping_world resetting_peer))) = Worker_done False
   \<and> IsRunning (fst (worker_turn streaming_client (looping_world resetting_peer)))
   \<and> 0 < sockfd streaming_client
   \<and> sockfd (fst (worker_turn streaming_client (looping_world resetting_peer))) = -1
   \<and> sockfd streaming_client
        \<notin> open_fds (snd (worker_turn streaming_client (looping_world resetting_peer)))"
proof -
  have pos: "0 < sockfd streaming_client"
    by (simp add: streaming_client_def)
  have f: "recv_fails_fatally (looping_world resetting_peer)"
    by (simp add: recv_fails_fatally_def looping_world_def streaming_world_def demo_world_def
        resetting_peer_def EAGAIN_def EWOULDBLOCK_def EINTR_def)
  from fatal_io_error_leaves_running_set
    [OF looping_world_worker streaming_client_running disjI1 [OF f]] pos f
  show ?thesis
    by (simp add: looping_world_worker streaming_client_running)
qed

section \<open>The socket handle and the state flags\<close>

text \<open>
  The polling loop changes neither the descriptor nor the connected flag, it returns only
  false from inside, and it is left by \<open>break\<close> only with the authenticated flag set.
\<close>

lemma poll_attempt_frame:
  "poll_attempt c w = Poll_return r c' w' \<Longrightarrow> \<not> r \<and> same_socket c c'"
  "poll_attempt c w = Poll_break c' w' \<Longrightarrow> same_socket c c' \<and> authenticated c'"
  "poll_attempt c w = Poll_continue c' w' \<Longrightarrow> c' = c"
  by (auto simp add: poll_attempt_def sys_recv_def sys_send_def Let_def same_socket_def
      split: if_splits prod.splits)

lemma handshake_poll_frame:
  "handshake_poll t c w = Some ex \<Longrightarrow>
   t < socket_timeout \<longrightarrow>
     (case ex of
        Loop_returned r c' w' \<Rightarrow> \<not> r \<and> same_socket c c'
      | Loop_left t' c' w' \<Rightarrow> t' = t \<and> same_socket c c' \<and> authenticated c')"
proof (rule handshake_poll.raw_induct
    [where P = "\<lambda>t c w ex. t < socket_timeout \<longrightarrow>
     (case ex of
        Loop_returned r c' w' \<Rightarrow> \<not> r \<and> same_socket c c'
      | Loop_left t' c' w' \<Rightarrow> t' = t \<and> same_socket c c' \<and> authenticated c')"])
  fix poll t c w ex
  assume IH: "\<And>t c w ex. poll t c w = Some ex \<Longrightarrow>
      t < socket_timeout \<longrightarrow>
     (case ex of
        Loop_returned r c' w' \<Rightarrow> \<not> r \<and> same_socket c c'
      | Loop_left t' c' w' \<Rightarrow> t' = t \<and> same_socket c c' \<and> authenticated c')"
    and step: "(if t < socket_timeout then
        (case poll_attempt c w of
           Poll_return r c' w' \<Rightarrow> Some (Loop_returned r c' w')
         | Poll_break c' w' \<Rightarrow> Some (Loop_left t c' w')
         | Poll_continue c' w' \<Rightarrow> poll t c' (sleep_for 100 w'))
      else Some (Loop_left t c w)) = Some ex"
  show "t < socket_timeout \<longrightarrow>
     (case ex of
        Loop_returned r c' w' \<Rightarrow> \<not> r \<and> same_socket c c'
      | Loop_left t' c' w' \<Rightarrow> t' = t \<and> same_socket c c' \<and> authenticated c')"
  proof
    assume t: "t < socket_timeout"
    show "case ex of
        Loop_returned r c' w' \<Rightarrow> \<not> r \<and> same_socket c c'
      | Loop_left t' c' w' \<Rightarrow> t' = t \<and> same_socket c c' \<and> authenticated c'"
    proof (cases "poll_attempt c w")
      case (Poll_return r c' w')
      with step t poll_attempt_frame(1) [OF Poll_return] show ?thesis
        by auto
    next
      case (Poll_break c' w')
      with step t poll_attempt_frame(2) [OF Poll_break] show ?thesis
        by auto
    next
      case (Poll_continue c' w')
      with step t have "poll t c' (sleep_for 100 w') = Some ex"
        by simp
      from IH [OF this] t poll_attempt_frame(3) [OF Poll_continue] show ?thesis
        by (auto split: poll_exit.splits)
    qed
  qed
qed

lemma Run_connect_Inr:
  "Run_connect c w = Inr (c2, w2) \<Longrightarrow> connected c2 \<and> 0 \<le> sockfd c2"
  by (auto simp add: Run_connect_def Let_def split: if_splits prod.splits sum.splits)

lemma Run_connect_Inl:
  "Run_connect c w = Inl (res, c1, w1) \<Longrightarrow>
   \<not> connected c \<Longrightarrow> \<not> authenticated c \<Longrightarrow> \<not> running c \<Longrightarrow> socket_valid c1"
  by (auto simp add: Run_connect_def Let_def IsRunning_def socket_valid_def sys_socket_def
      split: if_splits prod.splits sum.splits)

lemma Run_handshake_frame:
  assumes "Run_handshake c w = Some (res, c', w')"
  shows "sockfd c' = sockfd c \<and> connected c' = connected c
     \<and> (res = Inr True \<longrightarrow> authenticated c' \<and> running c')
     \<and> (running c' \<longrightarrow> running c \<or> authenticated c')"
proof -
  from assms obtain ex where ex: "handshake_poll 0 c w = Some ex"
    by (auto simp add: Run_handshake_def split: option.splits)
  from handshake_poll_frame [OF ex]
  have fr: "case ex of
        Loop_returned r c' w' \<Rightarrow> \<not> r \<and> same_socket c c'
      | Loop_left t' c' w' \<Rightarrow> t' = 0 \<and> same_socket c c' \<and> authenticated c'"
    by (simp add: socket_timeout_def)
  show ?thesis
  proof (cases ex)
    case (Loop_returned r c'' w'')
    with assms ex fr show ?thesis
      by (auto simp add: Run_handshake_def same_socket_def)
  next
    case (Loop_left t' c'' w'')
    with assms ex fr show ?thesis
      by (auto simp add: Run_handshake_def Run_finish_def socket_timeout_def same_socket_def
          Let_def split: thread_handle.splits)
  qed
qed

lemma Run_establishes_socket_valid:
  assumes "Run c w = Some (res, c', w')"
  shows "(res = Inr True \<longrightarrow> connected c' \<and> authenticated c' \<and> running c' \<and> 0 \<le> sockfd c')
     \<and> (\<not> connected c \<and> \<not> authenticated c \<and> \<not> running c \<longrightarrow> socket_valid c')"
proof (cases "Run_connect c w")
  case (Inl a)
  with assms have a: "Run_connect c w = Inl (res, c', w')"
    by (simp add: Run_def)
  have "res \<noteq> Inr True"
    using a by (auto simp add: Run_connect_def Let_def split: if_splits prod.splits sum.splits)
  with Run_connect_Inl [OF a] show ?thesis
    by blast
next
  case (Inr p)
  obtain c2 w2 where p: "p = (c2, w2)"
    by (cases p)
  from Inr p assms have hs: "Run_handshake c2 w2 = Some (res, c', w')"
    by (simp add: Run_def)
  from Inr p have "connected c2 \<and> 0 \<le> sockfd c2"
    by (simp add: Run_connect_Inr)
  with Run_handshake_frame [OF hs] show ?thesis
    by (simp add: socket_valid_def)
qed

lemma Stop_streaming:
  "Stop streaming_client (streaming_world peer) =
     (Inr (),
      streaming_client\<lparr>running := False, sockfd := -1, thread := Not_joinable\<rparr>,
      (streaming_world peer)
        \<lparr>open_fds := {}, clock_reads := 1, console := [Msg_gga_sent, Msg_service_running, Msg_service_done],
         worker := Worker_done True\<rparr>)"
  by (simp add: Stop_def streaming_client_def streaming_world_def demo_world_def demo_client_def
      UpdateGGA_def Init_def NtripClient_default_def join_def worker_turn_def ThreadHandler_entry_def
      ThreadHandler_exit_def Cleanup_def sys_close_def print_def steady_clock_now_def Let_def)

text \<open>
  Each turn of the worker leaves the running flag alone, and either leaves the whole
  object alone or ends the thread; Stop clears the flag of a running client and does
  nothing to any other; Run starts by making sure the flag is clear.
\<close>

lemma ThreadHandler_body_Inr:
  assumes "ThreadHandler_body c w st = Inr (c', w', st')"
  shows "c' = c"
proof -
  from assms obtain c1 w1 where r: "ThreadHandler_recv c w = Inr (c1, w1)"
    by (auto simp add: ThreadHandler_body_def split: sum.splits)
  with assms obtain w2 where "ThreadHandler_report c1 w1 st = Inr (c', w2, st')"
    by (auto simp add: ThreadHandler_body_def split: sum.splits)
  with r show ?thesis
    by (auto dest: ThreadHandler_report_Inr ThreadHandler_recv_Inr)
qed

lemma ThreadHandler_entry_Inr:
  "ThreadHandler_entry c w = Inr (c', w', st) \<Longrightarrow> c' = c"
  by (auto simp add: ThreadHandler_entry_def Let_def split: if_splits prod.splits)

lemma ThreadHandler_entry_Inl:
  "ThreadHandler_entry c w = Inl (r, c', w') \<Longrightarrow> running c' = running c"
  by (auto simp add: ThreadHandler_entry_def Cleanup_def Let_def split: if_splits prod.splits)

lemma ThreadHandler_exit_running:
  "ThreadHandler_exit c w = (r, c', w') \<Longrightarrow> running c' = running c"
  by (auto simp add: ThreadHandler_exit_def Cleanup_def Let_def split: if_splits prod.splits)

lemma worker_turn_effect:
  assumes "worker_turn c w = (c', w')"
  shows "running c' = running c
     \<and> (worker_alive (worker w') \<longrightarrow> c' = c \<and> worker_alive (worker w))"
proof (cases "worker w")
  case No_worker
  with assms show ?thesis
    by (simp add: worker_turn_def)
next
  case Worker_spawned
  show ?thesis
  proof (cases "ThreadHandler_entry c w")
    case (Inl a)
    obtain r c1 w1 where "a = (r, c1, w1)"
      by (cases a)
    with Inl assms Worker_spawned ThreadHandler_entry_Inl [of c w r c1 w1] show ?thesis
      by (auto simp add: worker_turn_def)
  next
    case (Inr p)
    obtain c1 w1 st where "p = (c1, w1, st)"
      by (cases p)
    with Inr assms Worker_spawned ThreadHandler_entry_Inr [of c w c1 w1 st] show ?thesis
      by (auto simp add: worker_turn_def)
  qed
next
  case (Worker_loop st)
  show ?thesis
  proof (cases "running c")
    case True
    show ?thesis
    proof (cases "ThreadHandler_body c w st")
      case (Inl a)
      obtain r c1 w1 where "a = (r, c1, w1)"
        by (cases a)
      with Inl assms Worker_loop True ThreadHandler_body_Inl [of c w st r c1 w1] show ?thesis
        by (auto simp add: worker_turn_def)
    next
      case (Inr p)
      obtain c1 w1 st' where "p = (c1, w1, st')"
        by (cases p)
      with Inr assms Worker_loop True ThreadHandler_body_Inr [of c w st c1 w1 st'] show ?thesis
        by (auto simp add: worker_turn_def)
    qed
  next
    case False
    obtain r c1 w1 where "ThreadHandler_exit c w = (r, c1, w1)"
      by (cases "ThreadHandler_exit c w")
    with assms Worker_loop False ThreadHandler_exit_running [of c w r c1 w1] show ?thesis
      by (auto simp add: worker_turn_def)
  qed
next
  case (Worker_done r)
  with assms show ?thesis
    by (simp add: worker_turn_def)
qed

lemma join_running: "join c w = (c', w') \<Longrightarrow> running c' = running c"
  by (auto simp add: join_def split: prod.splits dest: worker_turn_effect)

lemma Stop_effect:
  assumes "Stop c w = (r, c', w')"
  shows "if running c then \<not> running c' else c' = c \<and> w' = w"
proof (cases "running c")
  case False
  with assms show ?thesis
    by (simp add: Stop_def)
next
  case True
  show ?thesis
  proof (cases "thread c")
    case Not_joinable
    with assms True show ?thesis
      by (auto simp add: Stop_def)
  next
    case Joinable
    obtain c2 w2 where j: "join (c\<lparr>running := False\<rparr>) w = (c2, w2)"
      by (cases "join (c\<lparr>running := False\<rparr>) w")
    from join_running [OF j] have "\<not> running c2"
      by simp
    with assms True Joinable j show ?thesis
      by (auto simp add: Stop_def)
  qed
qed

lemma Run_connect_not_running:
  "Run_connect c w = Inl (res, c1, w1) \<Longrightarrow> \<not> running c1"
  "Run_connect c w = Inr (c2, w2) \<Longrightarrow> \<not> running c2"
proof -
  obtain r0 c0 w0 where s: "(if IsRunning c then Stop c w else (Inr (), c, w)) = (r0, c0, w0)"
    by (cases "if IsRunning c then Stop c w else (Inr (), c, w)")
  have n: "\<not> running c0"
  proof (cases "running c")
    case True
    with s have "Stop c w = (r0, c0, w0)"
      by (simp add: IsRunning_def)
    from Stop_effect [OF this] True show ?thesis
      by simp
  next
    case False
    with s show ?thesis
      by (simp add: IsRunning_def)
  qed
  show "Run_connect c w = Inl (res, c1, w1) \<Longrightarrow> \<not> running c1"
    using s n by (auto simp add: Run_connect_def Let_def sys_socket_def
        split: if_splits prod.splits sum.splits)
  show "Run_connect c w = Inr (c2, w2) \<Longrightarrow> \<not> running c2"
    using s n by (auto simp add: Run_connect_def Let_def sys_socket_def
        split: if_splits prod.splits sum.splits)
qed

lemma Run_streaming_socket_valid:
  assumes "Run c w = Some (res, c', w')"
  shows "streaming_socket_valid c' w'"
proof (cases "Run_connect c w")
  case (Inl a)
  with assms have "Run_connect c w = Inl (res, c', w')"
    by (simp add: Run_def)
  from Run_connect_not_running(1) [OF this] show ?thesis
    by (simp add: streaming_socket_valid_def)
next
  case (Inr p)
  obtain c2 w2 where p: "p = (c2, w2)"
    by (cases p)
  from Inr p assms have hs: "Run_handshake c2 w2 = Some (res, c', w')"
    by (simp add: Run_def)
  from Inr p have "connected c2 \<and> 0 \<le> sockfd c2" and "\<not> running c2"
    by (simp_all add: Run_connect_Inr Run_connect_not_running(2))
  with Run_handshake_frame [OF hs] show ?thesis
    by (auto simp add: streaming_socket_valid_def)
qed

lemma worker_turn_streaming_socket_valid:
  assumes "streaming_socket_valid c w" and "worker_turn c w = (c', w')"
  shows "streaming_socket_valid c' w'"
  using assms worker_turn_effect [OF assms(2)]
  by (auto simp add: streaming_socket_valid_def)

lemma reachable_streaming:
  "reachable streaming_client (streaming_world resetting_peer)"
proof -
  have "reachable NtripClient_default (demo_world resetting_peer)"
    by (rule reachable.constructed) (simp add: demo_world_def)
  then have "reachable (snd (Init ''caster'' ''2101'' ''MOUNT'' ''user'' ''pass'' NtripClient_default))
      (demo_world resetting_peer)"
    by (rule reachable.after_Init)
  then have "reachable demo_client (demo_world resetting_peer)"
    unfolding demo_client_def by (rule reachable.after_UpdateGGA)
  then show ?thesis
    using Run_demo_resetting by (rule reachable.after_Run)
qed

text \<open>
  C3, as the specification states it, says that in every reachable state with the
  connected flag (or a later one) set the socket handle is non-negative. It fails: the
  state after a successful Run followed by Stop is reachable, its connected flag is still
  set and its handle is -1.
\<close>

theorem socket_invalid_after_Stop:
  "reachable (fst (snd (Stop streaming_client (streaming_world resetting_peer))))
     (snd (snd (Stop streaming_client (streaming_world resetting_peer))))
   \<and> connected (fst (snd (Stop streaming_client (streaming_world resetting_peer))))
   \<and> sockfd (fst (snd (Stop streaming_client (streaming_world resetting_peer)))) = -1
   \<and> \<not> socket_valid (fst (snd (Stop streaming_client (streaming_world resetting_peer))))"
proof -
  have "Stop streaming_client (streaming_world resetting_peer) =
      (fst (Stop streaming_client (streaming_world resetting_peer)),
       fst (snd (Stop streaming_client (streaming_world resetting_peer))),
       snd (snd (Stop streaming_client (streaming_world resetting_peer))))"
    by simp
  from reachable.after_Stop [OF reachable_streaming this]
  show ?thesis
    by (simp add: Stop_streaming socket_valid_def) (simp add: streaming_client_def)
qed

text \<open>
  C3, amended. In every reachable state in which the running flag is set and the
  streaming thread has been started and has not returned, the connected and authenticated
  flags are set and the socket handle is non-negative. Init, UpdateGGA, Run, Stop and
  every turn of the thread preserve this.
\<close>

theorem reachable_streaming_socket_valid:
  "reachable c w \<Longrightarrow> streaming_socket_valid c w"
proof (induction rule: reachable.induct)
  case (constructed w)
  then show ?case
    by (simp add: streaming_socket_valid_def)
next
  case (constructed_with w h p m u pw)
  then show ?case
    by (simp add: streaming_socket_valid_def)
next
  case (after_Init c w h p m u pw)
  then show ?case
    by (simp add: streaming_socket_valid_def Init_def)
next
  case (after_UpdateGGA c w gga)
  then show ?case
    by (simp add: streaming_socket_valid_def UpdateGGA_def)
next
  case (after_Run c w r c' w')
  then show ?case
    by (simp add: Run_streaming_socket_valid)
next
  case (after_Stop c w r c' w')
  from Stop_effect [OF after_Stop.hyps(2)] after_Stop.IH show ?case
    by (auto simp add: streaming_socket_valid_def split: if_splits)
next
  case (after_turn c w c' w')
  then show ?case
    by (simp add: worker_turn_streaming_socket_valid)
qed

text \<open>
  The state in which the successful Run of the demo client leaves it.
\<close>

theorem reachable_streaming_socket_valid_witness:
  "reachable streaming_client (streaming_world resetting_peer)
   \<and> running streaming_client
   \<and> worker_alive (worker (streaming_world resetting_peer))
   \<and> connected streaming_client \<and> authenticated streaming_client
   \<and> 0 \<le> sockfd streaming_client"
  using reachable_streaming_socket_valid [OF reachable_streaming] reachable_streaming
  by (simp add: streaming_socket_valid_def streaming_client_def streaming_world_def)

end
